theory Spec2Isabelle
  imports
    Complex_Main
    "HOL-Library.Word"
    "HOL-Library.Multiset"
    "HOL-Library.Char_ord"
    "HOL-Library.List_Lexorder"
begin

unbundle bit_operations_syntax

section \<open>Data model\<close>

text \<open>
  A path is a Python \<open>str\<close>; \<open>sorted\<close> on strings is the lexicographic order on
  characters, which is the order \<open>HOL-Library.List_Lexorder\<close> with \<open>Char_ord\<close> gives to
  \<open>string\<close>.  A float that is only stored and compared (a modification time, a
  tolerance, a distance) is a \<open>real\<close>; a float that is serialised (an element of a face
  encoding) is its 64-bit pattern.  A blob is a list of bytes.
\<close>

type_synonym path = string
type_synonym byte = "8 word"
type_synonym blob = "byte list"
type_synonym float64 = "64 word"
type_synonym encoding = "float64 list"
type_synonym location = "int \<times> int \<times> int \<times> int"

text \<open>
  One row of table \<open>faces\<close> (\<open>setup_database\<close>).  The \<open>AUTOINCREMENT\<close> column
  \<open>id\<close> is assigned by SQLite and is never read or written by the program, so a row is
  its four other columns.
\<close>

record face_row =
  file_path :: path
  last_modified :: real
  face_encoding :: blob
  face_location_css :: string

text \<open>The element \<open>(last_modified, encoding_blob, location_str)\<close> of a worker's list.\<close>

type_synonym face_data = "real \<times> blob \<times> string"

text \<open>
  The database file on disk: absent, present but not an SQLite database, an SQLite
  database without table \<open>faces\<close>, or one with the table and its rows.
\<close>

datatype db_file = Missing | NotADatabase | NoTable | Faces "face_row list"

text \<open>
  The messages put on the status queue.  \<open>DONE\<close> and \<open>ABORTED\<close> are the strings
  \<open>"DONE"\<close> and \<open>"ABORTED"\<close>; \<open>INFO s\<close>, \<open>WARN s\<close>, \<open>ERROR s\<close> and \<open>RESULT s\<close> are
  the strings with these prefixes; \<open>PROGRESS x n\<close> is \<open>"PROGRESS:x:n"\<close>; \<open>RAW s\<close> is
  any other message.  Counts and image paths are rendered into the text; the name of
  the database file, durations and the text of exceptions are left out of it, and
  the percentage of \<open>PROGRESS\<close> is the number itself, which the program prints with
  one decimal.
\<close>

datatype status =
    INFO string
  | WARN string
  | ERROR string
  | PROGRESS real string
  | RESULT path
  | RAW string
  | DONE
  | ABORTED

fun is_terminal :: "status \<Rightarrow> bool" where
  "is_terminal DONE = True"
| "is_terminal ABORTED = True"
| "is_terminal _ = False"

fun is_result :: "status \<Rightarrow> bool" where
  "is_result (RESULT p) = True"
| "is_result _ = False"

text \<open>The exceptions the program distinguishes in its handlers.\<close>

datatype exn = FileNotFoundError | UnidentifiedImageError | ValueError | OtherException

subsection \<open>Rendering of integers in messages and in the location string\<close>

fun show_nat :: "nat \<Rightarrow> string" where
  "show_nat n =
     (if n < 10 then [''0123456789'' ! n]
      else show_nat (n div 10) @ [''0123456789'' ! (n mod 10)])"

declare show_nat.simps [simp del]

definition show_int :: "int \<Rightarrow> string" where
  "show_int i = (if i < 0 then CHR ''-'' # show_nat (nat (- i)) else show_nat (nat i))"

text \<open>\<open>f"{location[0]},{location[1]},{location[2]},{location[3]}"\<close>\<close>

definition location_str :: "location \<Rightarrow> string" where
  "location_str loc =
     (case loc of (t, r, b, l) \<Rightarrow>
        show_int t @ '','' @ show_int r @ '','' @ show_int b @ '','' @ show_int l)"

section \<open>Encodings as blobs\<close>

text \<open>
  \<open>arr.tobytes()\<close> of a one-dimensional \<open>float64\<close> array is the concatenation of
  the eight bytes of each element in the byte order of the machine;
  \<open>np.frombuffer(blob, dtype=np.float64)\<close> reads eight bytes per element in the same
  byte order and raises \<open>ValueError\<close> when the size of the buffer is not a multiple of
  eight.
\<close>

datatype byteorder = Little | Big

fun le_bytes :: "nat \<Rightarrow> float64 \<Rightarrow> byte list" where
  "le_bytes 0 w = []"
| "le_bytes (Suc n) w = ucast w # le_bytes n (drop_bit 8 w)"

fun le_word :: "byte list \<Rightarrow> float64" where
  "le_word [] = 0"
| "le_word (b # bs) = ucast b OR push_bit 8 (le_word bs)"

definition float64_to_bytes :: "byteorder \<Rightarrow> float64 \<Rightarrow> byte list" where
  "float64_to_bytes bo w = (case bo of Little \<Rightarrow> le_bytes 8 w | Big \<Rightarrow> rev (le_bytes 8 w))"

definition bytes_to_float64 :: "byteorder \<Rightarrow> byte list \<Rightarrow> float64" where
  "bytes_to_float64 bo bs = (case bo of Little \<Rightarrow> le_word bs | Big \<Rightarrow> le_word (rev bs))"

text \<open>\<open>np_array_to_blob\<close> of the indexer: \<open>arr.tobytes()\<close>.\<close>

definition np_array_to_blob :: "byteorder \<Rightarrow> encoding \<Rightarrow> blob" where
  "np_array_to_blob bo arr = concat (map (float64_to_bytes bo) arr)"

function frombuffer :: "byteorder \<Rightarrow> blob \<Rightarrow> encoding" where
  "frombuffer bo bs =
     (if bs = [] then []
      else bytes_to_float64 bo (take 8 bs) # frombuffer bo (drop 8 bs))"
  by pat_completeness auto
termination
  by (relation "measure (\<lambda>(bo, bs). length bs)") auto

declare frombuffer.simps [simp del]

text \<open>\<open>blob_to_np_array\<close> of the searcher: \<open>np.frombuffer(blob, dtype=np.float64)\<close>.\<close>

definition blob_to_np_array :: "byteorder \<Rightarrow> blob \<Rightarrow> exn + encoding" where
  "blob_to_np_array bo blob =
     (if length blob mod 8 \<noteq> 0 then Inl ValueError else Inr (frombuffer bo blob))"

section \<open>The worker\<close>

text \<open>
  What a worker reads from outside the program: the file system (\<open>stat\<close>), the image
  loader and the two calls of the face recognition library, each of which returns
  or raises, and the byte order of the machine.
\<close>

record 'img provider =
  stat_mtime :: "path \<Rightarrow> exn + real"
  load_image_file :: "path \<Rightarrow> exn + 'img"
  face_locations :: "'img \<Rightarrow> string \<Rightarrow> exn + location list"
  face_encodings :: "'img \<Rightarrow> location list \<Rightarrow> string \<Rightarrow> exn + encoding list"
  native :: byteorder

text \<open>
  \<open>process_image\<close>: every exception is caught and answered with \<open>(image_path, None)\<close>
  (the three handlers differ only in what they print to standard error), and so are
  an empty list of locations and an empty list of encodings.
\<close>

definition ENCODING_MODEL :: string where
  "ENCODING_MODEL = ''large''"

definition face_results :: "byteorder \<Rightarrow> real \<Rightarrow> encoding list \<Rightarrow> location list \<Rightarrow> face_data list" where
  "face_results bo mtime encs locs =
     map (\<lambda>(enc, loc). (mtime, np_array_to_blob bo enc, location_str loc)) (zip encs locs)"

definition process_image ::
  "('img, 'x) provider_scheme \<Rightarrow> string \<Rightarrow> path \<Rightarrow> path \<times> face_data list option" where
  "process_image W detection_model image_path =
     (case stat_mtime W image_path of
        Inl e \<Rightarrow> (image_path, None)
      | Inr mtime \<Rightarrow>
     (case load_image_file W image_path of
        Inl e \<Rightarrow> (image_path, None)
      | Inr image_array \<Rightarrow>
     (case face_locations W image_array detection_model of
        Inl e \<Rightarrow> (image_path, None)
      | Inr locs \<Rightarrow>
          if locs = [] then (image_path, None)
          else
     (case face_encodings W image_array locs ENCODING_MODEL of
        Inl e \<Rightarrow> (image_path, None)
      | Inr encs \<Rightarrow>
          if encs = [] then (image_path, None)
          else (image_path, Some (face_results (native W) mtime encs locs))))))"

section \<open>The index store\<close>

text \<open>
  A connection of \<open>sqlite3\<close>: the rows as committed on disk, and the rows as the
  connection sees them, with the changes of its open transaction.  \<open>DELETE\<close> and
  \<open>INSERT\<close> change only the latter; \<open>commit\<close> writes it to disk, \<open>rollback\<close> and
  \<open>close\<close> throw the open transaction away.
\<close>

record conn =
  committed :: "face_row list"
  working :: "face_row list"

definition connect :: "face_row list \<Rightarrow> conn" where
  "connect rows = \<lparr>committed = rows, working = rows\<rparr>"

text \<open>\<open>DELETE FROM faces WHERE file_path = ?\<close>\<close>

definition execute_delete :: "path \<Rightarrow> conn \<Rightarrow> conn" where
  "execute_delete p c = c\<lparr>working := filter (\<lambda>r. file_path r \<noteq> p) (working c)\<rparr>"

text \<open>\<open>INSERT INTO faces (file_path, last_modified, face_encoding, face_location_css)\<close>\<close>

definition execute_insert :: "face_row \<Rightarrow> conn \<Rightarrow> conn" where
  "execute_insert r c = c\<lparr>working := working c @ [r]\<rparr>"

definition commit :: "conn \<Rightarrow> conn" where
  "commit c = c\<lparr>committed := working c\<rparr>"

definition rollback :: "conn \<Rightarrow> conn" where
  "rollback c = c\<lparr>working := committed c\<rparr>"

definition close_conn :: "conn \<Rightarrow> face_row list" where
  "close_conn c = committed c"

text \<open>
  \<open>setup_database\<close>: \<open>CREATE TABLE IF NOT EXISTS\<close> on the file, which is created when
  absent.  On \<open>sqlite3.Error\<close> the function calls \<open>sys.exit(1)\<close>, that is, it raises
  \<open>SystemExit\<close>: the value \<open>None\<close>.
\<close>

definition setup_database :: "db_file \<Rightarrow> face_row list option" where
  "setup_database db =
     (case db of
        Missing \<Rightarrow> Some []
      | NotADatabase \<Rightarrow> None
      | NoTable \<Rightarrow> Some []
      | Faces rows \<Rightarrow> Some rows)"

text \<open>\<open>SELECT file_path, MAX(last_modified) FROM faces GROUP BY file_path\<close>\<close>

definition group_max :: "face_row list \<Rightarrow> (path \<times> real) list" where
  "group_max rows =
     map (\<lambda>p. (p, Max (set (map last_modified (filter (\<lambda>r. file_path r = p) rows)))))
       (remdups (map file_path rows))"

text \<open>
  \<open>get_indexed_files\<close>: the dictionary, as the list of its items; empty when the file
  is absent and when the query raises \<open>sqlite3.Error\<close>.
\<close>

definition get_indexed_files :: "db_file \<Rightarrow> (path \<times> real) list" where
  "get_indexed_files db =
     (case db of
        Missing \<Rightarrow> []
      | NotADatabase \<Rightarrow> []
      | NoTable \<Rightarrow> []
      | Faces rows \<Rightarrow> group_max rows)"

section \<open>The indexing run\<close>

text \<open>
  What a run reads from outside the program besides the provider: the directory
  walk, whether the second \<open>sqlite3.connect\<close> raises, whether the pool fails to start,
  the order in which \<open>imap_unordered\<close> delivers the results, after how many results the
  iteration raises (if it does), and which database call raises \<open>sqlite3.Error\<close>
  (\<open>db_fault i k\<close>: while the \<open>i\<close>-th result is applied, the \<open>k\<close>-th call of that
  \<open>try\<close> block, counted from 0).  A \<open>rollback\<close> in the handler does not raise.
\<close>

record 'img index_env = "'img provider" +
  find_image_files :: "string list \<Rightarrow> path list"
  connect_fails :: bool
  pool_start_fails :: bool
  completion_order :: "path list \<Rightarrow> path list"
  pool_breaks_at :: "nat option"
  db_fault :: "nat \<Rightarrow> nat \<Rightarrow> bool"

subsection \<open>Filtering the files that need processing\<close>

text \<open>\<open>image_path not in indexed_files_data or current_mod_time > indexed_files_data[image_path]\<close>\<close>

definition needs_processing :: "(path \<times> real) list \<Rightarrow> path \<Rightarrow> real \<Rightarrow> bool" where
  "needs_processing indexed_files_data image_path current_mod_time =
     (case map_of indexed_files_data image_path of
        None \<Rightarrow> True
      | Some t \<Rightarrow> current_mod_time > t)"

text \<open>The first loop, which only estimates, and ignores every error.\<close>

definition approx_new_modified :: "(path \<Rightarrow> exn + real) \<Rightarrow> (path \<times> real) list \<Rightarrow> path list \<Rightarrow> nat" where
  "approx_new_modified st idx all_image_paths =
     length (filter (\<lambda>p. case st p of Inl e \<Rightarrow> False | Inr m \<Rightarrow> needs_processing idx p m)
       all_image_paths)"

text \<open>
  The second loop, on the state \<open>(files_to_process, skipped_count, check_errors)\<close> and
  the messages it reports.
\<close>

fun check_files ::
  "(path \<Rightarrow> exn + real) \<Rightarrow> (path \<times> real) list \<Rightarrow> path list
   \<Rightarrow> path list \<times> nat \<times> nat \<times> status list \<Rightarrow> path list \<times> nat \<times> nat \<times> status list" where
  "check_files st idx [] acc = acc"
| "check_files st idx (image_path # rest) (files_to_process, skipped_count, check_errors, ev) =
     check_files st idx rest
       (case st image_path of
          Inr current_mod_time \<Rightarrow>
            if needs_processing idx image_path current_mod_time
            then (files_to_process @ [image_path], skipped_count, check_errors, ev)
            else (files_to_process, Suc skipped_count, check_errors, ev)
        | Inl e \<Rightarrow>
            if e = FileNotFoundError
            then (files_to_process, skipped_count, Suc check_errors,
                  ev @ [WARN (''File found during scan no longer exists: '' @ image_path)])
            else (files_to_process, skipped_count, Suc check_errors,
                  ev @ [ERROR (''checking file status '' @ image_path)]))"

definition select_files ::
  "(path \<Rightarrow> exn + real) \<Rightarrow> (path \<times> real) list \<Rightarrow> path list \<Rightarrow> bool
   \<Rightarrow> path list \<times> nat \<times> nat \<times> status list" where
  "select_files st idx all_image_paths force_rescan =
     (if force_rescan
      then (all_image_paths, 0, 0,
            [INFO ''Force rescanning enabled, processing all found images.''])
      else
        (case check_files st idx all_image_paths ([], 0, 0, []) of
           (files_to_process, skipped_count, check_errors, ev) \<Rightarrow>
             (files_to_process, skipped_count, check_errors,
              [INFO ''Checking which files are new or modified...'',
               INFO (''Estimated '' @ show_nat (approx_new_modified st idx all_image_paths)
                     @ '' files need processing.'')]
              @ ev
              @ [INFO (''Identified '' @ show_nat (length files_to_process)
                       @ '' new or modified files to process.''),
                 INFO (''Skipped '' @ show_nat skipped_count
                       @ '' already indexed and unchanged files.'')]
              @ (if check_errors > 0
                 then [WARN (''Encountered '' @ show_nat check_errors
                             @ '' errors during file status checks.'')]
                 else []))))"

subsection \<open>Applying one result\<close>

record counters =
  processed_files_count :: nat
  faces_stored_count :: nat
  file_process_errors :: nat
  db_errors :: nat

definition no_counts :: counters where
  "no_counts = \<lparr>processed_files_count = 0, faces_stored_count = 0,
                 file_process_errors = 0, db_errors = 0\<rparr>"

definition new_row :: "path \<Rightarrow> face_data \<Rightarrow> face_row" where
  "new_row p f =
     (case f of (mtime, encoding_blob, loc) \<Rightarrow>
        \<lparr>file_path = p, last_modified = mtime, face_encoding = encoding_blob,
         face_location_css = loc\<rparr>)"

text \<open>
  The loop of \<open>INSERT\<close>s; \<open>k\<close> is the number of the next database call.  \<open>Inl c\<close>: the
  call raised \<open>sqlite3.Error\<close> with the connection in state \<open>c\<close>.
\<close>

fun insert_faces :: "(nat \<Rightarrow> bool) \<Rightarrow> path \<Rightarrow> face_data list \<Rightarrow> nat \<Rightarrow> conn \<Rightarrow> conn + conn" where
  "insert_faces fails p [] k c = Inr c"
| "insert_faces fails p (f # fs) k c =
     (if fails k then Inl c
      else insert_faces fails p fs (Suc k) (execute_insert (new_row p f) c))"

text \<open>The handler of \<open>sqlite3.Error\<close>: report, roll back, count.\<close>

definition db_error_handler :: "path \<Rightarrow> conn \<Rightarrow> counters \<Rightarrow> conn \<times> counters \<times> status list" where
  "db_error_handler p c n =
     (rollback c, n\<lparr>db_errors := Suc (db_errors n)\<rparr>,
      [ERROR (''Database error updating for '' @ p)])"

text \<open>
  The body of the \<open>try\<close> block for one result.  A non-empty list is inserted and
  committed; \<open>None\<close> is counted and the \<open>DELETE\<close> committed; for an empty list neither
  branch is taken and nothing is committed.
\<close>

definition apply_result ::
  "(nat \<Rightarrow> bool) \<Rightarrow> path \<times> face_data list option \<Rightarrow> conn \<Rightarrow> counters
   \<Rightarrow> conn \<times> counters \<times> status list" where
  "apply_result fails r c n =
     (case r of (img_path_str, face_data_list) \<Rightarrow>
        if fails 0 then db_error_handler img_path_str c n
        else
          let c1 = execute_delete img_path_str c in
          (case face_data_list of
             None \<Rightarrow>
               let n1 = n\<lparr>file_process_errors := Suc (file_process_errors n)\<rparr> in
               if fails 1 then db_error_handler img_path_str c1 n1
               else (commit c1, n1, [])
           | Some fs \<Rightarrow>
               if fs = [] then (c1, n, [])
               else
                 (case insert_faces fails img_path_str fs 1 c1 of
                    Inl c2 \<Rightarrow> db_error_handler img_path_str c2 n
                  | Inr c2 \<Rightarrow>
                      if fails (Suc (length fs)) then db_error_handler img_path_str c2 n
                      else (commit c2,
                            n\<lparr>processed_files_count := Suc (processed_files_count n),
                              faces_stored_count := faces_stored_count n + length fs\<rparr>,
                            []))))"

text \<open>\<open>img_path_result.name\<close>: the last component of the path.\<close>

definition path_name :: "path \<Rightarrow> string" where
  "path_name p = rev (takeWhile (\<lambda>ch. ch \<noteq> CHR ''/'') (rev p))"

text \<open>The loop over the results as they arrive; \<open>i\<close> is the index of \<open>enumerate\<close>.\<close>

fun consume_results ::
  "(nat \<Rightarrow> nat \<Rightarrow> bool) \<Rightarrow> nat \<Rightarrow> nat \<Rightarrow> (path \<times> face_data list option) list
   \<Rightarrow> conn \<times> counters \<times> status list \<Rightarrow> conn \<times> counters \<times> status list" where
  "consume_results faults total_to_process i [] s = s"
| "consume_results faults total_to_process i (r # rs) (c, n, ev) =
     (case apply_result (faults i) r c n of
        (c', n', ev') \<Rightarrow>
          consume_results faults total_to_process (Suc i) rs
            (c', n',
             ev @ [PROGRESS (real (Suc i) / real total_to_process * 100) (path_name (fst r))]
                @ ev'))"

subsection \<open>The run\<close>

datatype pool_end = PoolNotStarted | PoolDone

text \<open>
  The block \<open>Parallel Processing\<close> once the connection is open.  \<open>Pool(processes=n)\<close>
  raises for \<open>n < 1\<close>; an exception while the results are iterated is caught, reported,
  and the run goes on to its summary.
\<close>

definition parallel_processing ::
  "('img, 'x) index_env_scheme \<Rightarrow> string \<Rightarrow> int \<Rightarrow> path list \<Rightarrow> face_row list
   \<Rightarrow> face_row list \<times> counters \<times> status list \<times> pool_end" where
  "parallel_processing E detection_model num_workers files_to_process rows =
     (let c = connect rows;
          ev0 = [INFO (''Starting face detection and encoding with '' @ show_int num_workers
                       @ '' workers...'')]
      in
        if num_workers < 1 \<or> pool_start_fails E
        then (close_conn c, no_counts, ev0, PoolNotStarted)
        else
          let order = completion_order E files_to_process;
              arrived = (case pool_breaks_at E of None \<Rightarrow> order | Some k \<Rightarrow> take k order);
              results = map (process_image E detection_model) arrived
          in
            (case consume_results (db_fault E) (length files_to_process) 0 results
                    (c, no_counts, []) of
               (c', n', ev') \<Rightarrow>
                 (close_conn c', n',
                  ev0 @ ev'
                  @ [case pool_breaks_at E of
                       None \<Rightarrow> RAW (CHR 0x0A # ''INFO: Processing complete.'')
                     | Some k \<Rightarrow> ERROR ''during multiprocessing pool execution''],
                  PoolDone)))"

definition summary :: "nat \<Rightarrow> nat \<Rightarrow> counters \<Rightarrow> nat \<Rightarrow> nat \<Rightarrow> status list" where
  "summary total_found n_to_process n skipped_count check_errors =
     [RAW (CHR 0x0A # ''--- Indexing Summary ---''),
      RAW (''Total potential image files found: '' @ show_nat total_found),
      RAW (''Files checked for processing: '' @ show_nat n_to_process),
      RAW (''Files successfully processed (faces stored): ''
           @ show_nat (processed_files_count n)),
      RAW (''Total face embeddings stored in this run: '' @ show_nat (faces_stored_count n)),
      RAW (''Files skipped (unchanged): '' @ show_nat skipped_count),
      RAW (''Files with processing errors or no faces: '' @ show_nat (file_process_errors n)),
      RAW (''Database update errors: '' @ show_nat (db_errors n)),
      RAW (''Check/Stat errors before processing: '' @ show_nat check_errors),
      RAW ''Total execution time'']"

datatype outcome = Returned | SystemExit

text \<open>\<open>', '.join(map(str, directories_to_scan))\<close>\<close>

fun join_comma :: "string list \<Rightarrow> string" where
  "join_comma [] = []"
| "join_comma [d] = d"
| "join_comma (d # ds) = d @ '', '' @ join_comma ds"

definition preamble :: "string list \<Rightarrow> bool \<Rightarrow> string \<Rightarrow> int \<Rightarrow> status list" where
  "preamble directories_to_scan force_rescan detection_model num_workers =
     [INFO ''Using database'',
      INFO (''Scanning directories: '' @ join_comma directories_to_scan),
      INFO (''Using '' @ show_int num_workers @ '' worker processes.''),
      INFO (''Using face detection model: '' @ detection_model)]
     @ (if force_rescan then [INFO ''Forcing rescan of all found images.''] else [])"

text \<open>
  \<open>run_indexing\<close>: the database file after the run, the messages put on the status
  queue in order, and whether the function returned or left by \<open>SystemExit\<close>, which
  \<open>except Exception\<close> does not catch.
\<close>

definition run_indexing ::
  "('img, 'x) index_env_scheme \<Rightarrow> string list \<Rightarrow> db_file \<Rightarrow> bool \<Rightarrow> string \<Rightarrow> int
   \<Rightarrow> db_file \<times> status list \<times> outcome" where
  "run_indexing E directories_to_scan db force_rescan detection_model num_workers =
     (let ev0 = preamble directories_to_scan force_rescan detection_model num_workers in
      case setup_database db of
        None \<Rightarrow> (db, ev0, SystemExit)
      | Some rows \<Rightarrow>
          let indexed_files_data = get_indexed_files (Faces rows);
              ev1 = ev0 @ [INFO (''Found '' @ show_nat (length indexed_files_data)
                                 @ '' files previously indexed.'')];
              all_image_paths = find_image_files E directories_to_scan;
              total_found = length all_image_paths
          in
            (case select_files (stat_mtime E) indexed_files_data all_image_paths force_rescan of
               (files_to_process, skipped_count, check_errors, ev_sel) \<Rightarrow>
                 if files_to_process = []
                 then (Faces rows,
                       ev1 @ ev_sel @ [INFO ''No new or modified files to process.'',
                                       INFO ''Total time'', DONE],
                       Returned)
                 else if connect_fails E
                 then (Faces rows,
                       ev1 @ ev_sel @ [ERROR ''Failed to connect to database'', ABORTED],
                       Returned)
                 else
                   (case parallel_processing E detection_model num_workers
                           files_to_process rows of
                      (rows', n, ev_par, pe) \<Rightarrow>
                        if pe = PoolNotStarted
                        then (Faces rows',
                              ev1 @ ev_sel @ ev_par
                              @ [RAW ''FATAL ERROR during indexing'', ABORTED],
                              Returned)
                        else (Faces rows',
                              ev1 @ ev_sel @ ev_par
                              @ summary total_found (length files_to_process) n
                                  skipped_count check_errors
                              @ [DONE],
                              Returned))))"

section \<open>The search\<close>

record 'img search_env = "'img provider" +
  is_file :: "path \<Rightarrow> bool"
  face_distance :: "encoding \<Rightarrow> encoding \<Rightarrow> real"

text \<open>
  The loop of \<open>load_all_encodings_from_db\<close> over the rows, on the state
  \<open>(file_paths, encodings)\<close> and the messages it puts on the queue.
\<close>

fun load_rows ::
  "byteorder \<Rightarrow> face_row list \<Rightarrow> path list \<times> encoding list \<times> status list
   \<Rightarrow> path list \<times> encoding list \<times> status list" where
  "load_rows bo [] acc = acc"
| "load_rows bo (row # rows) (file_paths, encodings, ev) =
     load_rows bo rows
       (case blob_to_np_array bo (face_encoding row) of
          Inl e \<Rightarrow>
            (file_paths, encodings,
             ev @ [WARN (''Could not decode blob for '' @ file_path row)])
        | Inr encoding_array \<Rightarrow>
            if length encoding_array = 128
            then (file_paths @ [file_path row], encodings @ [encoding_array], ev)
            else (file_paths, encodings,
                  ev @ [WARN (''Skipping invalid encoding shape for '' @ file_path row)]))"

text \<open>\<open>load_all_encodings_from_db\<close>; \<open>None\<close> is the pair \<open>(None, None)\<close>.\<close>

definition load_all_encodings_from_db ::
  "byteorder \<Rightarrow> db_file \<Rightarrow> (path list \<times> encoding list) option \<times> status list" where
  "load_all_encodings_from_db bo db =
     (case db of
        Missing \<Rightarrow>
          (None, [ERROR ''Database file not found.'',
                  RAW ''Please run the indexer script first.''])
      | NotADatabase \<Rightarrow> (None, [ERROR ''Database error reading encodings''])
      | NoTable \<Rightarrow> (None, [ERROR ''Database error reading encodings''])
      | Faces rows \<Rightarrow>
          if rows = []
          then (Some ([], []), [WARN ''Database appears to be empty. No faces indexed.''])
          else
            (case load_rows bo rows ([], [], []) of
               (file_paths, encodings, ev) \<Rightarrow>
                 if encodings = []
                 then (None, ev @ [ERROR ''No valid encodings were loaded from the database.''])
                 else (Some (file_paths, encodings),
                       ev @ [INFO (''Loaded '' @ show_nat (length encodings)
                                   @ '' known face encodings from the database.'')])))"

text \<open>
  \<open>face_recognition.compare_faces\<close>: \<open>list(face_distance(known, target) <= tolerance)\<close>,
  with the distance of the library a parameter.
\<close>

definition compare_faces ::
  "(encoding \<Rightarrow> encoding \<Rightarrow> real) \<Rightarrow> encoding list \<Rightarrow> encoding \<Rightarrow> real \<Rightarrow> bool list" where
  "compare_faces distance known_face_encodings face_encoding_to_check tolerance =
     map (\<lambda>k. distance k face_encoding_to_check \<le> tolerance) known_face_encodings"

text \<open>The set \<open>matching_file_paths\<close>, then \<open>sorted(list(matching_file_paths))\<close>.\<close>

definition sorted_matching_paths :: "path list \<Rightarrow> bool list \<Rightarrow> path list" where
  "sorted_matching_paths known_file_paths matches =
     sort (remdups (map fst (filter snd (zip known_file_paths matches))))"

text \<open>The \<open>try\<close> block that loads the reference image and encodes its faces.\<close>

definition process_reference :: "('img, 'x) provider_scheme \<Rightarrow> path \<Rightarrow> exn + encoding list" where
  "process_reference W reference_image_path =
     (case load_image_file W reference_image_path of
        Inl e \<Rightarrow> Inl e
      | Inr ref_image \<Rightarrow>
          (case face_locations W ref_image ''hog'' of
             Inl e \<Rightarrow> Inl e
           | Inr ref_face_locations \<Rightarrow> face_encodings W ref_image ref_face_locations ''small''))"

text \<open>\<open>run_search\<close>: the value returned and the messages put on the status queue.\<close>

definition run_search ::
  "('img, 'x) search_env_scheme \<Rightarrow> path \<Rightarrow> db_file \<Rightarrow> real \<Rightarrow> path list option \<times> status list" where
  "run_search E reference_image_path_str db tolerance =
     (if \<not> is_file E reference_image_path_str
      then (None, [ERROR (''Reference image not found at '' @ [CHR 0x27]
                          @ reference_image_path_str @ [CHR 0x27]),
                   ABORTED])
      else
        let ev0 = [INFO ''Using database'',
                   INFO (''Using reference image: '' @ reference_image_path_str),
                   INFO ''Using matching tolerance'']
        in
          (case load_all_encodings_from_db (native E) db of
             (None, ev_load) \<Rightarrow> (None, ev0 @ ev_load @ [ABORTED])
           | (Some (known_file_paths, known_face_encodings), ev_load) \<Rightarrow>
               if known_face_encodings = []
               then (Some [],
                     ev0 @ ev_load
                     @ [WARN ''No faces loaded from DB to compare against.'', DONE])
               else
                 let ev1 = ev0 @ ev_load @ [INFO ''Processing reference image...''] in
                 (case process_reference E reference_image_path_str of
                    Inl e \<Rightarrow>
                      (None, ev1 @ [ERROR ''loading or processing reference image'', ABORTED])
                  | Inr ref_face_encodings \<Rightarrow>
                      (case ref_face_encodings of
                         [] \<Rightarrow>
                           (None,
                            ev1 @ [ERROR (''No faces found in the reference image ''
                                          @ [CHR 0x27] @ reference_image_path_str
                                          @ [CHR 0x27] @ ''.''), ABORTED])
                       | target_encoding # others \<Rightarrow>
                           let matches = compare_faces (face_distance E) known_face_encodings
                                           target_encoding tolerance;
                               sorted_paths = sorted_matching_paths known_file_paths matches
                           in
                             (Some sorted_paths,
                              ev1
                              @ [if others = []
                                 then INFO ''Found 1 face in reference image. Using it for searching.''
                                 else WARN (''Found '' @ show_nat (length ref_face_encodings)
                                            @ '' faces in reference image. Using the first one.''),
                                 INFO ''Comparing reference face against database...'',
                                 INFO ''Comparison finished'']
                              @ (if sorted_paths = []
                                 then [INFO ''No matches found with tolerance'']
                                 else INFO (''Found '' @ show_nat (length sorted_paths)
                                            @ '' photos containing a matching face:'')
                                      # map RESULT sorted_paths)
                              @ [DONE])))))"

section \<open>Notions used in the statements\<close>

text \<open>The rows stored for one path.\<close>

definition rows_of_path :: "path \<Rightarrow> face_row list \<Rightarrow> face_row list" where
  "rows_of_path p rows = filter (\<lambda>r. file_path r = p) rows"

text \<open>The rows that a worker's result carries: none for \<open>None\<close>.\<close>

definition result_rows :: "path \<times> face_data list option \<Rightarrow> face_row list" where
  "result_rows r = (case snd r of None \<Rightarrow> [] | Some fs \<Rightarrow> map (new_row (fst r)) fs)"

text \<open>A row that the loader of the search keeps: its blob decodes to 128 floats.\<close>

definition valid_encoding :: "byteorder \<Rightarrow> face_row \<Rightarrow> bool" where
  "valid_encoding bo row =
     (case blob_to_np_array bo (face_encoding row) of
        Inl e \<Rightarrow> False
      | Inr encoding_array \<Rightarrow> length encoding_array = 128)"

definition stored_encoding :: "byteorder \<Rightarrow> face_row \<Rightarrow> encoding" where
  "stored_encoding bo row = frombuffer bo (face_encoding row)"

text \<open>A row that the search counts as a match of the reference encoding.\<close>

definition matches_reference ::
  "byteorder \<Rightarrow> (encoding \<Rightarrow> encoding \<Rightarrow> real) \<Rightarrow> encoding \<Rightarrow> real \<Rightarrow> face_row \<Rightarrow> bool" where
  "matches_reference bo distance target tolerance row =
     (valid_encoding bo row \<and> distance (stored_encoding bo row) target \<le> tolerance)"

text \<open>The warning with which the loader of the search drops a row.\<close>

definition drop_warning :: "byteorder \<Rightarrow> face_row \<Rightarrow> status" where
  "drop_warning bo row =
     (case blob_to_np_array bo (face_encoding row) of
        Inl e \<Rightarrow> WARN (''Could not decode blob for '' @ file_path row)
      | Inr encoding_array \<Rightarrow> WARN (''Skipping invalid encoding shape for '' @ file_path row))"

section \<open>Concrete inputs\<close>

text \<open>A photo without a face, a photo that has vanished, and a photo with one face.\<close>

definition no_faces_world :: "unit provider" where
  "no_faces_world =
     \<lparr>stat_mtime = (\<lambda>p. Inr 100), load_image_file = (\<lambda>p. Inr ()),
      face_locations = (\<lambda>img m. Inr []), face_encodings = (\<lambda>img locs m. Inr []),
      native = Little\<rparr>"

definition vanished_world :: "unit provider" where
  "vanished_world =
     \<lparr>stat_mtime = (\<lambda>p. Inl FileNotFoundError), load_image_file = (\<lambda>p. Inl FileNotFoundError),
      face_locations = (\<lambda>img m. Inr []), face_encodings = (\<lambda>img locs m. Inr []),
      native = Little\<rparr>"

definition one_face_world :: "unit provider" where
  "one_face_world =
     \<lparr>stat_mtime = (\<lambda>p. Inr 100), load_image_file = (\<lambda>p. Inr ()),
      face_locations = (\<lambda>img m. Inr [(10, 60, 50, 20)]),
      face_encodings = (\<lambda>img locs m. Inr (map (\<lambda>l. replicate 128 0) locs)),
      native = Little\<rparr>"

text \<open>
  Four photos found by a scan: a new one, one indexed and unchanged, one indexed and
  modified since, and one that has vanished; and the snapshot of the index.
\<close>

definition album_paths :: "path list" where
  "album_paths = [''/p/new.jpg'', ''/p/old.jpg'', ''/p/mod.jpg'', ''/p/gone.jpg'']"

definition album_stat :: "path \<Rightarrow> exn + real" where
  "album_stat p = (if p = ''/p/gone.jpg'' then Inl FileNotFoundError else Inr 100)"

definition album_snapshot :: "(path \<times> real) list" where
  "album_snapshot = [(''/p/old.jpg'', 100), (''/p/mod.jpg'', 50)]"

text \<open>Rows left in the store by an earlier run.\<close>

definition stale_rows :: "face_row list" where
  "stale_rows =
     [\<lparr>file_path = ''/photos/a.jpg'', last_modified = 50, face_encoding = [],
       face_location_css = ''1,2,3,4''\<rparr>,
      \<lparr>file_path = ''/photos/z.jpg'', last_modified = 70, face_encoding = [],
       face_location_css = ''5,6,7,8''\<rparr>]"

text \<open>
  A search: every reference image shows one face with the encoding of 128 zeros, and
  two encodings are at distance 0 when equal and at distance 1 otherwise.
\<close>

definition gallery :: "unit search_env" where
  "gallery =
     \<lparr>stat_mtime = (\<lambda>p. Inr 100), load_image_file = (\<lambda>p. Inr ()),
      face_locations = (\<lambda>img m. Inr [(10, 60, 50, 20)]),
      face_encodings = (\<lambda>img locs m. Inr (map (\<lambda>l. replicate 128 0) locs)),
      native = Little,
      is_file = (\<lambda>p. True),
      face_distance = (\<lambda>a b. if a = b then 0 else 1)\<rparr>"

definition face_of :: "path \<Rightarrow> float64 \<Rightarrow> face_row" where
  "face_of p x =
     \<lparr>file_path = p, last_modified = 100,
      face_encoding = np_array_to_blob Little (replicate 128 x),
      face_location_css = ''10,60,50,20''\<rparr>"

text \<open>A row whose blob holds one float instead of 128.\<close>

definition short_row :: face_row where
  "short_row =
     \<lparr>file_path = ''/p/d.jpg'', last_modified = 100,
      face_encoding = np_array_to_blob Little [0],
      face_location_css = ''10,60,50,20''\<rparr>"

text \<open>
  A store: three faces in \<open>b.jpg\<close>, two of them the face searched for; that face
  in \<open>a.jpg\<close>; another face in \<open>c.jpg\<close>; and the short row.
\<close>

definition gallery_rows :: "face_row list" where
  "gallery_rows =
     [face_of ''/p/b.jpg'' 0, face_of ''/p/b.jpg'' 1, face_of ''/p/b.jpg'' 0,
      short_row, face_of ''/p/c.jpg'' 1, face_of ''/p/a.jpg'' 0]"

text \<open>
  An album of two photos, \<open>a.jpg\<close> with one face and \<open>b.jpg\<close> with none, indexed
  without any error; the loader hands the path on as the image.
\<close>

definition mixed_album :: "string index_env" where
  "mixed_album =
     \<lparr>stat_mtime = (\<lambda>p. Inr 100), load_image_file = (\<lambda>p. Inr p),
      face_locations = (\<lambda>img m. Inr (if img = ''/photos/a.jpg'' then [(10, 60, 50, 20)] else [])),
      face_encodings = (\<lambda>img locs m. Inr (map (\<lambda>l. replicate 128 0) locs)),
      native = Little,
      find_image_files = (\<lambda>dirs. [''/photos/a.jpg'', ''/photos/b.jpg'']),
      connect_fails = False,
      pool_start_fails = False,
      completion_order = (\<lambda>ps. ps),
      pool_breaks_at = None,
      db_fault = (\<lambda>i k. False)\<rparr>"

section \<open>Properties of the serialisation\<close>

lemma le_word_le_bytes: "le_word (le_bytes n w) = take_bit (8 * n) w"
proof (induction n arbitrary: w)
  case 0
  show ?case by simp
next
  case (Suc n)
  show ?case
    apply (simp add: Suc.IH)
    apply (rule bit_word_eqI)
    apply (auto simp add: bit_simps)
    done
qed

lemma length_le_bytes: "length (le_bytes n w) = n"
  by (induction n arbitrary: w) auto

lemma length_float64_to_bytes: "length (float64_to_bytes bo w) = 8"
  by (cases bo) (simp_all add: float64_to_bytes_def length_le_bytes)

lemma bytes_to_float64_inverse: "bytes_to_float64 bo (float64_to_bytes bo w) = w"
  by (cases bo)
     (simp_all add: float64_to_bytes_def bytes_to_float64_def le_word_le_bytes
        take_bit_word_eq_self)

lemma length_np_array_to_blob: "length (np_array_to_blob bo arr) = 8 * length arr"
  by (induction arr) (simp_all add: np_array_to_blob_def length_float64_to_bytes)

lemma frombuffer_tobytes: "frombuffer bo (np_array_to_blob bo arr) = arr"
proof (induction arr)
  case Nil
  show ?case by (simp add: np_array_to_blob_def frombuffer.simps)
next
  case (Cons w ws)
  have ne: "float64_to_bytes bo w @ np_array_to_blob bo ws \<noteq> []"
    using length_float64_to_bytes [of bo w] by auto
  have "frombuffer bo (float64_to_bytes bo w @ np_array_to_blob bo ws)
          = bytes_to_float64 bo (float64_to_bytes bo w) # frombuffer bo (np_array_to_blob bo ws)"
    using ne by (subst frombuffer.simps) (simp add: length_float64_to_bytes)
  then show ?case
    using Cons.IH by (simp add: np_array_to_blob_def bytes_to_float64_inverse)
qed

text \<open>
  C10.  For every vector of 128 64-bit floats, \<open>blob_to_np_array\<close> (searcher) applied to
  the blob that \<open>np_array_to_blob\<close> (indexer) makes of it returns, without raising, the
  vector itself, bit for bit, and the blob has exactly \<open>128 * 8\<close> bytes, on a machine of
  either byte order.
\<close>

theorem blob_roundtrip:
  assumes "length arr = 128"
  shows "blob_to_np_array bo (np_array_to_blob bo arr) = Inr arr
         \<and> length (np_array_to_blob bo arr) = 128 * 8"
  using assms
  by (simp add: blob_to_np_array_def length_np_array_to_blob frombuffer_tobytes)

theorem blob_roundtrip_witness:
  "length (replicate 128 (1 :: float64)) = 128
   \<and> blob_to_np_array Little (np_array_to_blob Little (replicate 128 1)) = Inr (replicate 128 1)
   \<and> length (np_array_to_blob Little (replicate 128 (1 :: float64))) = 128 * 8"
  using blob_roundtrip [of "replicate 128 (1 :: float64)" Little]
  by (simp only: length_replicate simp_thms)

section \<open>The worker's answer\<close>

lemma process_image_fst: "fst (process_image W m p) = p"
  by (simp add: process_image_def split: sum.splits)

lemma face_results_Nil: "face_results bo t encs locs = [] \<longleftrightarrow> encs = [] \<or> locs = []"
  by (cases encs; cases locs) (simp_all add: face_results_def)

lemma process_image_not_empty: "snd (process_image W m p) \<noteq> Some []"
  by (simp add: process_image_def face_results_Nil split: sum.splits)

text \<open>
  C4, as the code has it.  The worker returns the path and either a non-empty list of
  face records or \<open>None\<close>.  \<open>None\<close> is the answer for a photo without a face as well as
  for every failure (\<open>stat\<close>, the loader, the detection or the encoding raises, or no
  encoding comes back for the locations found); a list is returned only when
  locations and encodings were both found, and it is never empty.
\<close>

theorem worker_result:
  "fst (process_image W m p) = p
   \<and> snd (process_image W m p) \<noteq> Some []
   \<and> (stat_mtime W p = Inr t \<and> load_image_file W p = Inr img
        \<and> face_locations W img m = Inr []
      \<longrightarrow> snd (process_image W m p) = None)
   \<and> (stat_mtime W p = Inl e \<longrightarrow> snd (process_image W m p) = None)
   \<and> (load_image_file W p = Inl e \<longrightarrow> snd (process_image W m p) = None)
   \<and> (load_image_file W p = Inr img \<and> face_locations W img m = Inl e
      \<longrightarrow> snd (process_image W m p) = None)
   \<and> (load_image_file W p = Inr img \<and> face_locations W img m = Inr locs
        \<and> face_encodings W img locs ENCODING_MODEL = Inl e
      \<longrightarrow> snd (process_image W m p) = None)
   \<and> (load_image_file W p = Inr img \<and> face_locations W img m = Inr locs
        \<and> face_encodings W img locs ENCODING_MODEL = Inr []
      \<longrightarrow> snd (process_image W m p) = None)
   \<and> (snd (process_image W m p) = Some fs
      \<longrightarrow> (\<exists>t' img' locs encs.
            stat_mtime W p = Inr t' \<and> load_image_file W p = Inr img'
            \<and> face_locations W img' m = Inr locs \<and> locs \<noteq> []
            \<and> face_encodings W img' locs ENCODING_MODEL = Inr encs \<and> encs \<noteq> []
            \<and> fs = face_results (native W) t' encs locs))"
  by (auto simp add: process_image_def face_results_Nil split: sum.splits if_splits)

theorem worker_result_witness:
  "snd (process_image no_faces_world ''hog'' ''/photos/b.jpg'') = None
   \<and> snd (process_image vanished_world ''hog'' ''/photos/b.jpg'') = None"
  using worker_result [where W = no_faces_world and p = "''/photos/b.jpg''" and m = "''hog''"
          and t = 100 and img = "()"]
        worker_result [where W = vanished_world and p = "''/photos/b.jpg''" and m = "''hog''"
          and e = FileNotFoundError]
  by (simp add: no_faces_world_def vanished_world_def)

text \<open>
  C4 as stated fails: a photo in which no face is found and a photo that has vanished
  get the same answer, \<open>None\<close>, and the photo without a face does not get the empty
  list.
\<close>

theorem worker_conflates_counterexample:
  "snd (process_image no_faces_world ''hog'' ''/photos/b.jpg'')
     = snd (process_image vanished_world ''hog'' ''/photos/b.jpg'')
   \<and> snd (process_image no_faces_world ''hog'' ''/photos/b.jpg'') \<noteq> Some []"
  by (simp add: process_image_def no_faces_world_def vanished_world_def)

section \<open>Filtering the files that need processing\<close>

lemma check_files_acc:
  "check_files st idx ps (ftp, sk, ce, ev) =
     (ftp @ filter (\<lambda>p. case st p of Inl e \<Rightarrow> False | Inr m \<Rightarrow> needs_processing idx p m) ps,
      sk + length (filter (\<lambda>p. case st p of Inl e \<Rightarrow> False | Inr m \<Rightarrow> \<not> needs_processing idx p m) ps),
      ce + length (filter (\<lambda>p. isl (st p)) ps),
      ev @ concat (map (\<lambda>p. case st p of
                              Inr m \<Rightarrow> []
                            | Inl e \<Rightarrow> if e = FileNotFoundError
                                then [WARN (''File found during scan no longer exists: '' @ p)]
                                else [ERROR (''checking file status '' @ p)]) ps))"
  by (induction ps arbitrary: ftp sk ce ev) (auto split: sum.splits)

lemma needs_processing_iff:
  "needs_processing idx p m \<longleftrightarrow> map_of idx p = None \<or> (\<exists>t. map_of idx p = Some t \<and> t < m)"
  by (simp add: needs_processing_def split: option.splits)

lemma filter_partition3:
  "length (filter (\<lambda>p. case st p of Inl e \<Rightarrow> False | Inr m \<Rightarrow> N p m) ps)
   + length (filter (\<lambda>p. case st p of Inl e \<Rightarrow> False | Inr m \<Rightarrow> \<not> N p m) ps)
   + length (filter (\<lambda>p. isl (st p)) ps) = length ps"
  by (induction ps) (auto split: sum.splits)

text \<open>
  C2.  In a run without \<open>force_rescan\<close> the processing set is the list of the candidate
  paths, in order, whose \<open>stat\<close> succeeds and which are absent from the snapshot or have
  a modification time strictly greater than the recorded one; the paths whose \<open>stat\<close>
  fails are counted as check errors, every other path is counted as skipped, and
  the three numbers add up to the number of candidates.  The filter returns in every
  case: a failing \<open>stat\<close> does not fail the run.
\<close>

theorem change_detection:
  assumes "select_files st idx all_image_paths False = (files_to_process, skipped_count, check_errors, ev)"
  shows "files_to_process =
           filter (\<lambda>p. case st p of
                         Inl e \<Rightarrow> False
                       | Inr m \<Rightarrow> map_of idx p = None \<or> (\<exists>t. map_of idx p = Some t \<and> t < m))
             all_image_paths
         \<and> check_errors = length (filter (\<lambda>p. isl (st p)) all_image_paths)
         \<and> skipped_count =
             length (filter (\<lambda>p. \<not> isl (st p) \<and> p \<notin> set files_to_process) all_image_paths)
         \<and> length files_to_process + skipped_count + check_errors = length all_image_paths"
proof -
  let ?N = "\<lambda>p m. map_of idx p = None \<or> (\<exists>t. map_of idx p = Some t \<and> t < m)"
  have f: "files_to_process = filter (\<lambda>p. case st p of Inl e \<Rightarrow> False | Inr m \<Rightarrow> ?N p m) all_image_paths"
    and s: "skipped_count = length (filter (\<lambda>p. case st p of Inl e \<Rightarrow> False | Inr m \<Rightarrow> \<not> ?N p m) all_image_paths)"
    and c: "check_errors = length (filter (\<lambda>p. isl (st p)) all_image_paths)"
    using assms
    by (simp_all add: select_files_def check_files_acc needs_processing_iff cong: sum.case_cong)
  have "filter (\<lambda>p. case st p of Inl e \<Rightarrow> False | Inr m \<Rightarrow> \<not> ?N p m) all_image_paths
        = filter (\<lambda>p. \<not> isl (st p) \<and> p \<notin> set files_to_process) all_image_paths"
    unfolding f by (rule filter_cong) (auto split: sum.splits)
  with f s c filter_partition3 [where st = st and N = ?N and ps = all_image_paths] show ?thesis
    by simp
qed

theorem change_detection_witness:
  "select_files album_stat album_snapshot album_paths False =
     ([''/p/new.jpg'', ''/p/mod.jpg''], 1, 1,
      [INFO ''Checking which files are new or modified...'',
       INFO ''Estimated 2 files need processing.'',
       WARN ''File found during scan no longer exists: /p/gone.jpg'',
       INFO ''Identified 2 new or modified files to process.'',
       INFO ''Skipped 1 already indexed and unchanged files.'',
       WARN ''Encountered 1 errors during file status checks.''])
   \<and> length [''/p/new.jpg'', ''/p/mod.jpg''] + 1 + 1 = length album_paths"
proof -
  have h: "select_files album_stat album_snapshot album_paths False =
     ([''/p/new.jpg'', ''/p/mod.jpg''], 1, 1,
      [INFO ''Checking which files are new or modified...'',
       INFO ''Estimated 2 files need processing.'',
       WARN ''File found during scan no longer exists: /p/gone.jpg'',
       INFO ''Identified 2 new or modified files to process.'',
       INFO ''Skipped 1 already indexed and unchanged files.'',
       WARN ''Encountered 1 errors during file status checks.''])"
    by (simp add: select_files_def album_stat_def album_snapshot_def album_paths_def
        needs_processing_def approx_new_modified_def show_nat.simps)
  have c: "length [''/p/new.jpg'', ''/p/mod.jpg''] + 1 + 1 = length album_paths"
    using change_detection [OF h] by (elim conjE)
  show ?thesis
    by (rule conjI [OF h c])
qed

section \<open>Applying one result to the store\<close>

lemma insert_faces_Inr:
  "insert_faces fails p fs k c = Inr c' \<Longrightarrow>
     working c' = working c @ map (new_row p) fs \<and> committed c' = committed c"
  by (induction fs arbitrary: k c) (auto simp add: execute_insert_def split: if_splits)

lemma insert_faces_Inl:
  "insert_faces fails p fs k c = Inl c' \<Longrightarrow> committed c' = committed c"
  by (induction fs arbitrary: k c) (auto simp add: execute_insert_def split: if_splits)

lemma insert_faces_no_fault:
  "(\<And>j. \<not> fails j) \<Longrightarrow> \<exists>c'. insert_faces fails p fs k c = Inr c'"
  by (induction fs arbitrary: k c) auto

lemma file_path_new_row [simp]: "file_path (new_row p f) = p"
  by (cases f) (simp add: new_row_def)

lemma last_modified_new_row [simp]: "last_modified (new_row p (t, b, l)) = t"
  by (simp add: new_row_def)

lemma rows_of_path_append [simp]:
  "rows_of_path q (xs @ ys) = rows_of_path q xs @ rows_of_path q ys"
  by (simp add: rows_of_path_def)

lemma rows_of_path_new_rows:
  "rows_of_path q (map (new_row p) fs) = (if q = p then map (new_row p) fs else [])"
  by (induction fs) (auto simp add: rows_of_path_def)

lemma rows_of_path_delete:
  "rows_of_path q (filter (\<lambda>r. file_path r \<noteq> p) rows) = (if q = p then [] else rows_of_path q rows)"
  by (induction rows) (auto simp add: rows_of_path_def)

text \<open>What one application does to a connection without an open transaction.\<close>

lemma apply_result_cases:
  assumes "apply_result fails (p, fd) c n = (c', n', ev)"
    and "working c = committed c"
  shows "(db_errors n' = db_errors n \<and> ev = []
          \<and> (fd \<noteq> Some [] \<longrightarrow>
               working c' = committed c'
               \<and> committed c' = filter (\<lambda>r. file_path r \<noteq> p) (committed c) @ result_rows (p, fd))
          \<and> (fd = Some [] \<longrightarrow>
               committed c' = committed c
               \<and> working c' = filter (\<lambda>r. file_path r \<noteq> p) (committed c)))
         \<or> (db_errors n' = Suc (db_errors n) \<and> c' = c)"
  using assms
  by (cases c)
     (auto simp add: apply_result_def db_error_handler_def rollback_def commit_def
        execute_delete_def result_rows_def Let_def
        split: if_splits option.splits sum.splits
        dest!: insert_faces_Inr insert_faces_Inl)

lemma apply_result_no_fault:
  assumes "\<And>k. \<not> fails k"
    and "apply_result fails (p, fd) c n = (c', n', ev)"
  shows "db_errors n' = db_errors n"
  using assms insert_faces_no_fault [of fails p "the fd" 1 "execute_delete p c"]
  by (auto simp add: apply_result_def db_error_handler_def Let_def
        split: if_splits option.splits sum.splits)

lemma rows_of_path_after_apply:
  assumes "apply_result fails (p, fd) c n = (c', n', ev)"
    and "working c = committed c"
    and "fd \<noteq> Some []"
    and "db_errors n' = db_errors n"
  shows "working c' = committed c'
         \<and> rows_of_path q (committed c') =
             (if q = p then result_rows (p, fd) else rows_of_path q (committed c))"
proof -
  from apply_result_cases [OF assms(1,2)] assms(3,4)
  have w: "working c' = committed c'"
    and r: "committed c' = filter (\<lambda>r. file_path r \<noteq> p) (committed c) @ result_rows (p, fd)"
    by auto
  have "rows_of_path q (result_rows (p, fd)) = (if q = p then result_rows (p, fd) else [])"
    by (cases fd) (simp_all add: result_rows_def rows_of_path_new_rows rows_of_path_def)
  with w r show ?thesis
    by (simp add: rows_of_path_delete)
qed

text \<open>
  C1.  The result of the worker for path \<open>p\<close> is applied to a connection without an
  open transaction, as every iteration of the loop finds it.  Afterwards no
  transaction is open, and either the rows stored for \<open>p\<close> are exactly the rows of
  this result (all old rows of \<open>p\<close> are gone, also when the result carries none), the
  \<open>DELETE\<close> and the \<open>INSERT\<close>s having been committed by one \<open>commit\<close>; or a database
  call raised, the error was counted, and the store is as it was before.  Old and
  new rows of \<open>p\<close> never stand together.  When no database call raises, the first
  case holds.
\<close>

theorem replace_is_atomic:
  assumes "apply_result fails (process_image W m p) c n = (c', n', ev)"
    and "working c = committed c"
  shows "working c' = committed c'
         \<and> ((db_errors n' = db_errors n
              \<and> committed c' = filter (\<lambda>r. file_path r \<noteq> p) (committed c)
                                 @ result_rows (process_image W m p)
              \<and> rows_of_path p (committed c') = result_rows (process_image W m p))
             \<or> (db_errors n' = Suc (db_errors n) \<and> committed c' = committed c))
         \<and> ((\<forall>k. \<not> fails k) \<longrightarrow> db_errors n' = db_errors n)"
proof -
  obtain fd where pi: "process_image W m p = (p, fd)"
    using process_image_fst [of W m p] by (cases "process_image W m p") simp
  have ne: "fd \<noteq> Some []"
    using process_image_not_empty [of W m p] pi by simp
  have a: "apply_result fails (p, fd) c n = (c', n', ev)"
    using assms(1) pi by simp
  from apply_result_cases [OF a assms(2)]
  consider (ok) "db_errors n' = db_errors n" "working c' = committed c'"
      "committed c' = filter (\<lambda>r. file_path r \<noteq> p) (committed c) @ result_rows (p, fd)"
    | (fault) "db_errors n' = Suc (db_errors n)" "c' = c"
    using ne by auto
  then have main: "working c' = committed c'
         \<and> ((db_errors n' = db_errors n
              \<and> committed c' = filter (\<lambda>r. file_path r \<noteq> p) (committed c) @ result_rows (p, fd)
              \<and> rows_of_path p (committed c') = result_rows (p, fd))
             \<or> (db_errors n' = Suc (db_errors n) \<and> committed c' = committed c))"
  proof cases
    case ok
    with rows_of_path_after_apply [OF a assms(2) ne ok(1), of p] show ?thesis
      by simp
  next
    case fault
    with assms(2) show ?thesis by simp
  qed
  have "(\<forall>k. \<not> fails k) \<longrightarrow> db_errors n' = db_errors n"
    using apply_result_no_fault [OF _ a] by blast
  with main pi show ?thesis
    by simp
qed

theorem replace_is_atomic_witness:
  "working (connect stale_rows) = committed (connect stale_rows)
   \<and> rows_of_path ''/photos/a.jpg''
       (committed (fst (apply_result (\<lambda>k. False)
          (process_image one_face_world ''hog'' ''/photos/a.jpg'') (connect stale_rows) no_counts)))
     = [\<lparr>file_path = ''/photos/a.jpg'', last_modified = 100,
         face_encoding = np_array_to_blob Little (replicate 128 0),
         face_location_css = ''10,60,50,20''\<rparr>]"
proof -
  let ?r = "apply_result (\<lambda>k. False)
          (process_image one_face_world ''hog'' ''/photos/a.jpg'') (connect stale_rows) no_counts"
  have inv: "working (connect stale_rows) = committed (connect stale_rows)"
    by (simp add: connect_def)
  have h: "?r = (fst ?r, fst (snd ?r), snd (snd ?r))"
    by simp
  have rr: "result_rows (process_image one_face_world ''hog'' ''/photos/a.jpg'')
     = [\<lparr>file_path = ''/photos/a.jpg'', last_modified = 100,
         face_encoding = np_array_to_blob Little (replicate 128 0),
         face_location_css = ''10,60,50,20''\<rparr>]"
    by (simp add: process_image_def one_face_world_def face_results_def location_str_def
        show_int_def show_nat.simps ENCODING_MODEL_def result_rows_def new_row_def)
  from replace_is_atomic [OF h inv] inv rr show ?thesis
    by auto
qed

section \<open>The loop over the results\<close>

lemma consume_results_rows:
  assumes "\<And>i k. \<not> faults i k"
    and "working c = committed c"
    and "\<forall>r\<in>set rs. snd r \<noteq> Some []"
    and "\<forall>r\<in>set rs. \<forall>r'\<in>set rs. fst r = fst r' \<longrightarrow> snd r = snd r'"
    and "consume_results faults tot i rs (c, n, ev) = (c', n', ev')"
  shows "working c' = committed c'
         \<and> rows_of_path q (committed c') =
             (case map_of rs q of
                None \<Rightarrow> rows_of_path q (committed c)
              | Some fd \<Rightarrow> result_rows (q, fd))"
  using assms(2-)
proof (induction rs arbitrary: c n ev i)
  case Nil
  from Nil.prems(4) have "c' = c" by simp
  with Nil.prems(1) show ?case by simp
next
  case (Cons r rs)
  obtain p fd where r: "r = (p, fd)" by (cases r)
  obtain c1 n1 ev1 where a: "apply_result (faults i) (p, fd) c n = (c1, n1, ev1)"
    by (cases "apply_result (faults i) (p, fd) c n")
  have ne: "fd \<noteq> Some []" using Cons.prems(2) r by simp
  have nf: "db_errors n1 = db_errors n"
    by (rule apply_result_no_fault [OF assms(1) a])
  note step = rows_of_path_after_apply [OF a Cons.prems(1) ne nf]
  have rest: "consume_results faults tot (Suc i) rs
                (c1, n1, ev @ [PROGRESS (real (Suc i) / real tot * 100) (path_name p)] @ ev1)
              = (c', n', ev')"
    using Cons.prems(4) r a by simp
  have w1: "working c1 = committed c1"
    using step by simp
  have s1: "rows_of_path q (committed c1) =
             (if q = p then result_rows (p, fd) else rows_of_path q (committed c))"
    using step by simp
  have p2: "\<forall>r\<in>set rs. snd r \<noteq> Some []"
    using Cons.prems(2) by (meson list.set_intros(2))
  have p3: "\<forall>r\<in>set rs. \<forall>r'\<in>set rs. fst r = fst r' \<longrightarrow> snd r = snd r'"
    using Cons.prems(3) by (meson list.set_intros(2))
  note ih = Cons.IH [OF w1 p2 p3 rest]
  show ?case
  proof (cases "map_of rs q")
    case None
    have "map_of (r # rs) q = (if q = p then Some fd else None)"
      using None r by simp
    with ih None s1 show ?thesis by simp
  next
    case (Some fd')
    then have m: "(q, fd') \<in> set rs" by (rule map_of_SomeD)
    have "q = p \<Longrightarrow> fd' = fd"
    proof -
      assume "q = p"
      have "(q, fd') \<in> set (r # rs)" "r \<in> set (r # rs)"
        using m by simp_all
      with Cons.prems(3) have "fst (q, fd') = fst r \<longrightarrow> snd (q, fd') = snd r"
        by blast
      with \<open>q = p\<close> r show "fd' = fd" by simp
    qed
    then have "map_of (r # rs) q = Some fd'"
      using Some r by auto
    with ih Some show ?thesis by simp
  qed
qed

text \<open>
  The loop over the results of the worker never leaves a transaction open, whichever
  database calls raise.
\<close>

lemma consume_results_no_open_transaction:
  assumes "working c = committed c"
    and "consume_results faults tot i (map (process_image W m) ps) (c, n, ev) = (c', n', ev')"
  shows "working c' = committed c'"
  using assms
proof (induction ps arbitrary: c n ev i)
  case Nil
  from Nil.prems(2) have "c' = c" by simp
  with Nil.prems(1) show ?case by simp
next
  case (Cons p ps)
  obtain fd where pi: "process_image W m p = (p, fd)"
    using process_image_fst [of W m p] by (cases "process_image W m p") simp
  have ne: "fd \<noteq> Some []"
    using process_image_not_empty [of W m p] pi by simp
  obtain c1 n1 ev1 where a: "apply_result (faults i) (p, fd) c n = (c1, n1, ev1)"
    by (cases "apply_result (faults i) (p, fd) c n")
  from apply_result_cases [OF a Cons.prems(1)] ne Cons.prems(1)
  have w1: "working c1 = committed c1"
    by auto
  have rest: "consume_results faults tot (Suc i) (map (process_image W m) ps)
                (c1, n1, ev @ [PROGRESS (real (Suc i) / real tot * 100) (path_name p)] @ ev1)
              = (c', n', ev')"
    using Cons.prems(2) pi a by simp
  from Cons.IH [OF w1 rest] show ?case .
qed

lemma mset_eq_if_rows_of_path_eq:
  assumes "\<And>q. rows_of_path q xs = rows_of_path q ys"
  shows "mset xs = mset ys"
proof (rule multiset_eqI)
  fix x
  have "count (mset xs) x = count (mset (rows_of_path (file_path x) xs)) x"
    by (simp add: rows_of_path_def)
  also have "\<dots> = count (mset (rows_of_path (file_path x) ys)) x"
    by (simp add: assms)
  also have "\<dots> = count (mset ys) x"
    by (simp add: rows_of_path_def)
  finally show "count (mset xs) x = count (mset ys) x" .
qed

text \<open>
  C9.  Applied to a connection without an open transaction, the result for path \<open>p\<close>
  leaves the rows stored for every other path \<open>q\<close> as they were, whether the database
  calls succeed or one of them raises.  Hence the results of different files can be
  applied in any order: two runs of the loop over the same results (none of them the
  empty list, which the worker never returns) in different orders, with no database
  error, end with the same rows for every path and the same rows in the store.
\<close>

theorem results_are_independent:
  assumes "working c = committed c"
  shows "(q \<noteq> p \<and> apply_result fails (p, fd) c n = (c', n', ev)
            \<longrightarrow> rows_of_path q (committed c') = rows_of_path q (committed c))
         \<and> (mset rs = mset rs' \<and> distinct (map fst rs) \<and> (\<forall>r\<in>set rs. snd r \<noteq> Some [])
              \<and> (\<forall>i k. \<not> faults i k)
              \<and> consume_results faults tot i rs (c, n, ev0) = (c1, n1, ev1)
              \<and> consume_results faults tot i rs' (c, n, ev0) = (c2, n2, ev2)
            \<longrightarrow> rows_of_path q (committed c1) = rows_of_path q (committed c2)
                \<and> mset (committed c1) = mset (committed c2))"
proof (intro conjI impI)
  assume h: "q \<noteq> p \<and> apply_result fails (p, fd) c n = (c', n', ev)"
  from apply_result_cases [OF conjunct2 [OF h] assms]
  consider "fd \<noteq> Some []" "committed c' = filter (\<lambda>r. file_path r \<noteq> p) (committed c) @ result_rows (p, fd)"
    | "fd = Some []" "committed c' = committed c"
    | "c' = c"
    by blast
  then show "rows_of_path q (committed c') = rows_of_path q (committed c)"
  proof cases
    case 1
    have "rows_of_path q (result_rows (p, fd)) = []"
    proof (cases fd)
      case None
      then show ?thesis by (simp add: result_rows_def rows_of_path_def)
    next
      case (Some fs)
      with h show ?thesis by (simp add: result_rows_def rows_of_path_new_rows)
    qed
    with 1 h show ?thesis by (simp add: rows_of_path_delete)
  next
    case 2
    then show ?thesis by simp
  next
    case 3
    then show ?thesis by simp
  qed
next
  assume h: "mset rs = mset rs' \<and> distinct (map fst rs) \<and> (\<forall>r\<in>set rs. snd r \<noteq> Some [])
              \<and> (\<forall>i k. \<not> faults i k)
              \<and> consume_results faults tot i rs (c, n, ev0) = (c1, n1, ev1)
              \<and> consume_results faults tot i rs' (c, n, ev0) = (c2, n2, ev2)"
  then have ms: "mset rs = mset rs'" and d: "distinct (map fst rs)"
    and ne: "\<forall>r\<in>set rs. snd r \<noteq> Some []" and nf: "\<And>i k. \<not> faults i k"
    and r1: "consume_results faults tot i rs (c, n, ev0) = (c1, n1, ev1)"
    and r2: "consume_results faults tot i rs' (c, n, ev0) = (c2, n2, ev2)"
    by simp_all
  have se: "set rs = set rs'"
    using ms by (rule mset_eq_setD)
  have "mset (map fst rs) = mset (map fst rs')"
    using ms by simp
  then have d': "distinct (map fst rs')"
    using d by (metis mset_eq_imp_distinct_iff)
  have ne': "\<forall>r\<in>set rs'. snd r \<noteq> Some []"
    using ne se by simp
  have f: "\<forall>r\<in>set rs. \<forall>r'\<in>set rs. fst r = fst r' \<longrightarrow> snd r = snd r'"
    using d by (metis eq_key_imp_eq_value prod.collapse)
  have f': "\<forall>r\<in>set rs'. \<forall>r'\<in>set rs'. fst r = fst r' \<longrightarrow> snd r = snd r'"
    using d' by (metis eq_key_imp_eq_value prod.collapse)
  have mo: "map_of rs = map_of rs'"
    using d d' se by (simp add: map_of_inject_set)
  have eq: "rows_of_path q' (committed c1) = rows_of_path q' (committed c2)" for q'
    using consume_results_rows [OF nf assms ne f r1, of q']
          consume_results_rows [OF nf assms ne' f' r2, of q'] mo
    by simp
  show "rows_of_path q (committed c1) = rows_of_path q (committed c2)"
    by (rule eq)
  show "mset (committed c1) = mset (committed c2)"
    by (rule mset_eq_if_rows_of_path_eq) (rule eq)
qed

theorem results_are_independent_witness:
  "working (connect stale_rows) = committed (connect stale_rows)
   \<and> mset (committed (fst (consume_results (\<lambda>i k. False) 2 0
         [(''/photos/a.jpg'', None), (''/photos/z.jpg'', Some [(100, [], ''1,2,3,4'')])]
         (connect stale_rows, no_counts, []))))
     = mset (committed (fst (consume_results (\<lambda>i k. False) 2 0
         [(''/photos/z.jpg'', Some [(100, [], ''1,2,3,4'')]), (''/photos/a.jpg'', None)]
         (connect stale_rows, no_counts, []))))"
proof -
  let ?rs = "[(''/photos/a.jpg'', None), (''/photos/z.jpg'', Some [(100 :: real, [] :: blob, ''1,2,3,4'')])]"
  let ?rs' = "[(''/photos/z.jpg'', Some [(100 :: real, [] :: blob, ''1,2,3,4'')]), (''/photos/a.jpg'', None)]"
  let ?A = "consume_results (\<lambda>i k. False) 2 0 ?rs (connect stale_rows, no_counts, [])"
  let ?B = "consume_results (\<lambda>i k. False) 2 0 ?rs' (connect stale_rows, no_counts, [])"
  have inv: "working (connect stale_rows) = committed (connect stale_rows)"
    by (simp add: connect_def)
  have pre: "mset ?rs = mset ?rs' \<and> distinct (map fst ?rs) \<and> (\<forall>r\<in>set ?rs. snd r \<noteq> Some [])
              \<and> (\<forall>i k. \<not> (\<lambda>i k. False) i k)
              \<and> ?A = (fst ?A, fst (snd ?A), snd (snd ?A))
              \<and> ?B = (fst ?B, fst (snd ?B), snd (snd ?B))"
    by simp
  have m: "mset (committed (fst ?A)) = mset (committed (fst ?B))"
    by (rule results_are_independent [OF inv, THEN conjunct2, THEN mp, OF pre, THEN conjunct2])
  show ?thesis
    by (rule conjI [OF inv m])
qed

section \<open>What a search returns\<close>

lemma blob_to_np_array_tobytes: "blob_to_np_array bo (np_array_to_blob bo arr) = Inr arr"
  by (simp add: blob_to_np_array_def length_np_array_to_blob frombuffer_tobytes)

lemma load_rows_acc:
  "load_rows bo rows (fps, encs, ev) =
     (fps @ map file_path (filter (valid_encoding bo) rows),
      encs @ map (stored_encoding bo) (filter (valid_encoding bo) rows),
      ev @ map (drop_warning bo) (filter (\<lambda>r. \<not> valid_encoding bo r) rows))"
proof (induction rows arbitrary: fps encs ev)
  case Nil
  show ?case by simp
next
  case (Cons row rows)
  show ?case
  proof (cases "blob_to_np_array bo (face_encoding row)")
    case (Inl e)
    then show ?thesis
      by (simp add: Cons.IH valid_encoding_def drop_warning_def)
  next
    case (Inr a)
    then have "a = stored_encoding bo row"
      by (simp add: blob_to_np_array_def stored_encoding_def split: if_splits)
    with Inr show ?thesis
      by (simp add: Cons.IH valid_encoding_def drop_warning_def)
  qed
qed

lemma load_all_encodings:
  "load_all_encodings_from_db bo (Faces rows) =
     (if rows = []
      then (Some ([], []), [WARN ''Database appears to be empty. No faces indexed.''])
      else if filter (valid_encoding bo) rows = []
      then (None, map (drop_warning bo) rows
                  @ [ERROR ''No valid encodings were loaded from the database.''])
      else (Some (map file_path (filter (valid_encoding bo) rows),
                  map (stored_encoding bo) (filter (valid_encoding bo) rows)),
            map (drop_warning bo) (filter (\<lambda>r. \<not> valid_encoding bo r) rows)
            @ [INFO (''Loaded '' @ show_nat (length (filter (valid_encoding bo) rows))
                     @ '' known face encodings from the database.'')]))"
proof -
  have "filter (valid_encoding bo) rows = [] \<Longrightarrow> filter (\<lambda>r. \<not> valid_encoding bo r) rows = rows"
    by (simp add: filter_empty_conv filter_id_conv)
  then show ?thesis
    by (simp add: load_all_encodings_from_db_def load_rows_acc)
qed

lemma run_search_fst_load:
  assumes "fst (load_all_encodings_from_db (native E) db) = fst (load_all_encodings_from_db (native E) db')"
  shows "fst (run_search E ref db tol) = fst (run_search E ref db' tol)"
  using assms
  by (cases "load_all_encodings_from_db (native E) db"; cases "load_all_encodings_from_db (native E) db'")
     (auto simp add: run_search_def Let_def split: option.splits sum.splits list.splits)

text \<open>
  C6.  A search against a missing database file returns \<open>None\<close> and ends with
  \<open>ABORTED\<close>.  For a reference path that is a file, which \<open>run_search\<close> checks first,
  the messages are the error of the missing file and then \<open>ABORTED\<close>; and a search
  against a database whose table has no row returns the empty list and ends with
  \<open>DONE\<close>, without \<open>ABORTED\<close> and without looking into the reference image.
\<close>

theorem missing_and_empty_store:
  "fst (run_search E ref Missing tol) = None
   \<and> last (snd (run_search E ref Missing tol)) = ABORTED
   \<and> (is_file E ref \<longrightarrow>
        run_search E ref Missing tol =
          (None,
           [INFO ''Using database'', INFO (''Using reference image: '' @ ref),
            INFO ''Using matching tolerance'',
            ERROR ''Database file not found.'', RAW ''Please run the indexer script first.'',
            ABORTED])
        \<and> run_search E ref (Faces []) tol =
          (Some [],
           [INFO ''Using database'', INFO (''Using reference image: '' @ ref),
            INFO ''Using matching tolerance'',
            WARN ''Database appears to be empty. No faces indexed.'',
            WARN ''No faces loaded from DB to compare against.'',
            DONE]))"
  by (simp add: run_search_def load_all_encodings_from_db_def)

theorem missing_and_empty_store_witness:
  "is_file gallery ''/ref.jpg''
   \<and> fst (run_search gallery ''/ref.jpg'' Missing (3 / 5)) = None
   \<and> last (snd (run_search gallery ''/ref.jpg'' Missing (3 / 5))) = ABORTED
   \<and> fst (run_search gallery ''/ref.jpg'' (Faces []) (3 / 5)) = Some []
   \<and> last (snd (run_search gallery ''/ref.jpg'' (Faces []) (3 / 5))) = DONE"
proof -
  have f: "is_file gallery ''/ref.jpg''"
    by (simp add: gallery_def)
  from missing_and_empty_store [of gallery "''/ref.jpg''" "3 / 5"] f show ?thesis
    by simp
qed

text \<open>
  C7, as the code has it.  The loader drops every row whose blob does not decode to
  128 floats, each with one warning, and keeps the others; as long as one row is
  kept, the search returns what it returns on the store without the dropped rows.
  When the table has rows and none of them is kept, the loader reports an error and
  the search ends with \<open>ABORTED\<close>, returning \<open>None\<close>.
\<close>

theorem invalid_encodings_dropped:
  "load_all_encodings_from_db (native E) (Faces rows) =
     (if rows = []
      then (Some ([], []), [WARN ''Database appears to be empty. No faces indexed.''])
      else if filter (valid_encoding (native E)) rows = []
      then (None, map (drop_warning (native E)) rows
                  @ [ERROR ''No valid encodings were loaded from the database.''])
      else (Some (map file_path (filter (valid_encoding (native E)) rows),
                  map (stored_encoding (native E)) (filter (valid_encoding (native E)) rows)),
            map (drop_warning (native E)) (filter (\<lambda>r. \<not> valid_encoding (native E) r) rows)
            @ [INFO (''Loaded '' @ show_nat (length (filter (valid_encoding (native E)) rows))
                     @ '' known face encodings from the database.'')]))
   \<and> (filter (valid_encoding (native E)) rows \<noteq> []
      \<longrightarrow> fst (run_search E ref (Faces rows) tol)
          = fst (run_search E ref (Faces (filter (valid_encoding (native E)) rows)) tol))
   \<and> (rows \<noteq> [] \<and> filter (valid_encoding (native E)) rows = [] \<and> is_file E ref
      \<longrightarrow> fst (run_search E ref (Faces rows) tol) = None
          \<and> last (snd (run_search E ref (Faces rows) tol)) = ABORTED)"
proof (intro conjI impI)
  show "load_all_encodings_from_db (native E) (Faces rows) =
     (if rows = []
      then (Some ([], []), [WARN ''Database appears to be empty. No faces indexed.''])
      else if filter (valid_encoding (native E)) rows = []
      then (None, map (drop_warning (native E)) rows
                  @ [ERROR ''No valid encodings were loaded from the database.''])
      else (Some (map file_path (filter (valid_encoding (native E)) rows),
                  map (stored_encoding (native E)) (filter (valid_encoding (native E)) rows)),
            map (drop_warning (native E)) (filter (\<lambda>r. \<not> valid_encoding (native E) r) rows)
            @ [INFO (''Loaded '' @ show_nat (length (filter (valid_encoding (native E)) rows))
                     @ '' known face encodings from the database.'')]))"
    by (rule load_all_encodings)
next
  assume v: "filter (valid_encoding (native E)) rows \<noteq> []"
  then have "rows \<noteq> []" by auto
  with v have "fst (load_all_encodings_from_db (native E) (Faces rows))
      = fst (load_all_encodings_from_db (native E) (Faces (filter (valid_encoding (native E)) rows)))"
    by (simp add: load_all_encodings)
  then show "fst (run_search E ref (Faces rows) tol)
          = fst (run_search E ref (Faces (filter (valid_encoding (native E)) rows)) tol)"
    by (rule run_search_fst_load)
next
  assume h: "rows \<noteq> [] \<and> filter (valid_encoding (native E)) rows = [] \<and> is_file E ref"
  then show "fst (run_search E ref (Faces rows) tol) = None"
    by (simp add: run_search_def load_all_encodings)
  from h show "last (snd (run_search E ref (Faces rows) tol)) = ABORTED"
    by (simp add: run_search_def load_all_encodings)
qed

lemma valid_face_of [simp]: "valid_encoding Little (face_of p x)"
  by (simp add: valid_encoding_def face_of_def blob_to_np_array_tobytes)

lemma stored_face_of [simp]: "stored_encoding Little (face_of p x) = replicate 128 x"
  by (simp add: stored_encoding_def face_of_def frombuffer_tobytes)

lemma file_path_face_of [simp]: "file_path (face_of p x) = p"
  by (simp add: face_of_def)

lemma invalid_short_row [simp]: "\<not> valid_encoding Little short_row"
  by (simp add: valid_encoding_def short_row_def blob_to_np_array_tobytes)

lemma process_reference_gallery:
  "process_reference gallery ref = Inr [replicate 128 0]"
  by (simp add: process_reference_def gallery_def)

theorem invalid_encodings_dropped_witness:
  "filter (valid_encoding (native gallery)) gallery_rows \<noteq> []
   \<and> fst (run_search gallery ''/ref.jpg'' (Faces gallery_rows) (3 / 5))
     = fst (run_search gallery ''/ref.jpg''
         (Faces [face_of ''/p/b.jpg'' 0, face_of ''/p/b.jpg'' 1, face_of ''/p/b.jpg'' 0,
                 face_of ''/p/c.jpg'' 1, face_of ''/p/a.jpg'' 0]) (3 / 5))"
proof -
  have n: "native gallery = Little"
    by (simp add: gallery_def)
  have v: "filter (valid_encoding (native gallery)) gallery_rows
     = [face_of ''/p/b.jpg'' 0, face_of ''/p/b.jpg'' 1, face_of ''/p/b.jpg'' 0,
        face_of ''/p/c.jpg'' 1, face_of ''/p/a.jpg'' 0]"
    by (simp add: n gallery_rows_def)
  then have ne: "filter (valid_encoding (native gallery)) gallery_rows \<noteq> []"
    by simp
  from invalid_encodings_dropped [of gallery gallery_rows "''/ref.jpg''" "3 / 5",
      THEN conjunct2, THEN conjunct1, THEN mp, OF ne] ne v
  show ?thesis by simp
qed

text \<open>
  C7 as stated fails: on a store whose only row has a blob of one float, the row is
  dropped with a warning and the search is aborted.
\<close>

theorem invalid_encoding_fatal_counterexample:
  "run_search gallery ''/ref.jpg'' (Faces [short_row]) (3 / 5) =
     (None,
      [INFO ''Using database'', INFO ''Using reference image: /ref.jpg'',
       INFO ''Using matching tolerance'',
       WARN ''Skipping invalid encoding shape for /p/d.jpg'',
       ERROR ''No valid encodings were loaded from the database.'',
       ABORTED])"
proof -
  have n: "native gallery = Little" and f: "is_file gallery ''/ref.jpg''"
    by (simp_all add: gallery_def)
  have w: "drop_warning Little short_row = WARN ''Skipping invalid encoding shape for /p/d.jpg''"
    by (simp add: drop_warning_def short_row_def blob_to_np_array_tobytes)
  show ?thesis
    by (simp add: run_search_def load_all_encodings n f w)
qed

lemma matching_zip:
  "map fst (filter snd (zip (map f rows) (map g rows))) = map f (filter g rows)"
  by (induction rows) auto

lemma sorted_matching_paths_loaded:
  "sorted_matching_paths (map file_path (filter (valid_encoding bo) rows))
     (compare_faces distance (map (stored_encoding bo) (filter (valid_encoding bo) rows))
        target tol)
   = sort (remdups (map file_path (filter (matches_reference bo distance target tol) rows)))"
proof -
  have "map (\<lambda>k. distance k target \<le> tol) (map (stored_encoding bo) (filter (valid_encoding bo) rows))
        = map (\<lambda>r. distance (stored_encoding bo r) target \<le> tol) (filter (valid_encoding bo) rows)"
    by simp
  moreover have "filter (\<lambda>r. distance (stored_encoding bo r) target \<le> tol) (filter (valid_encoding bo) rows)
        = filter (matches_reference bo distance target tol) rows"
    unfolding filter_filter by (rule filter_cong) (simp_all add: matches_reference_def)
  ultimately show ?thesis
    by (simp only: sorted_matching_paths_def compare_faces_def matching_zip)
qed

lemma results_only: "filter (\<lambda>e. is_result e \<or> is_terminal e) (map RESULT ps) = map RESULT ps"
  by (induction ps) auto

text \<open>
  C3, as the code has it.  For a reference path that is a file and whose first face
  has the encoding \<open>target\<close>, and a store that is empty or has at least one row that
  the loader keeps: the search returns the sorted list, without repetition, of the
  paths that have a stored encoding of 128 floats at distance at most the tolerance
  from \<open>target\<close>; a path with several matching rows is in it once.  The messages of
  the run that are results or terminal are one \<open>RESULT\<close> for each path in that
  order, then \<open>DONE\<close>.
\<close>

theorem search_result:
  assumes "is_file E ref"
    and "rows = [] \<or> filter (valid_encoding (native E)) rows \<noteq> []"
    and "process_reference E ref = Inr (target # others)"
  shows "\<exists>ps ev. run_search E ref (Faces rows) tol = (Some ps, ev)
           \<and> ps = sort (remdups (map file_path
                     (filter (matches_reference (native E) (face_distance E) target tol) rows)))
           \<and> sorted ps \<and> distinct ps
           \<and> set ps = file_path `
                 set (filter (matches_reference (native E) (face_distance E) target tol) rows)
           \<and> filter (\<lambda>e. is_result e \<or> is_terminal e) ev = map RESULT ps @ [DONE]"
proof (cases "rows = []")
  case True
  with assms(1) have "run_search E ref (Faces rows) tol =
      (Some [],
       [INFO ''Using database'', INFO (''Using reference image: '' @ ref),
        INFO ''Using matching tolerance'',
        WARN ''Database appears to be empty. No faces indexed.'',
        WARN ''No faces loaded from DB to compare against.'',
        DONE])"
    by (simp add: run_search_def load_all_encodings)
  with True show ?thesis
    by simp
next
  case False
  with assms(2) have valid: "filter (valid_encoding (native E)) rows \<noteq> []"
    by simp
  let ?ps = "sort (remdups (map file_path
                     (filter (matches_reference (native E) (face_distance E) target tol) rows)))"
  have ev: "filter (\<lambda>e. is_result e \<or> is_terminal e)
              (map (drop_warning (native E)) (filter (\<lambda>r. \<not> valid_encoding (native E) r) rows)) = []"
    by (auto simp add: filter_empty_conv drop_warning_def split: sum.splits)
  have "fst (run_search E ref (Faces rows) tol) = Some ?ps"
    using assms(1,3) valid False
    by (simp add: run_search_def load_all_encodings sorted_matching_paths_loaded Let_def)
  moreover have "filter (\<lambda>e. is_result e \<or> is_terminal e) (snd (run_search E ref (Faces rows) tol))
                 = map RESULT ?ps @ [DONE]"
    using assms(1,3) valid False
    by (simp add: run_search_def load_all_encodings sorted_matching_paths_loaded Let_def ev
          results_only)
  ultimately have "run_search E ref (Faces rows) tol = (Some ?ps, snd (run_search E ref (Faces rows) tol))
     \<and> filter (\<lambda>e. is_result e \<or> is_terminal e) (snd (run_search E ref (Faces rows) tol))
                 = map RESULT ?ps @ [DONE]"
    by (simp add: prod_eq_iff)
  then show ?thesis
    by (intro exI [of _ ?ps] exI [of _ "snd (run_search E ref (Faces rows) tol)"]) simp
qed

lemma sort_two_paths: "sort [''/p/b.jpg'', ''/p/a.jpg''] = [''/p/a.jpg'', ''/p/b.jpg'']"
  by code_simp

theorem search_result_witness:
  "is_file gallery ''/ref.jpg''
   \<and> (gallery_rows = [] \<or> filter (valid_encoding (native gallery)) gallery_rows \<noteq> [])
   \<and> process_reference gallery ''/ref.jpg'' = Inr [replicate 128 0]
   \<and> fst (run_search gallery ''/ref.jpg'' (Faces gallery_rows) (3 / 5))
       = Some [''/p/a.jpg'', ''/p/b.jpg'']
   \<and> filter (\<lambda>e. is_result e \<or> is_terminal e)
         (snd (run_search gallery ''/ref.jpg'' (Faces gallery_rows) (3 / 5)))
       = [RESULT ''/p/a.jpg'', RESULT ''/p/b.jpg'', DONE]"
proof -
  have n: "native gallery = Little" and f: "is_file gallery ''/ref.jpg''"
    and d: "face_distance gallery = (\<lambda>a b. if a = b then 0 else 1)"
    by (simp_all add: gallery_def)
  have v: "gallery_rows = [] \<or> filter (valid_encoding (native gallery)) gallery_rows \<noteq> []"
    by (simp add: n gallery_rows_def)
  have r: "process_reference gallery ''/ref.jpg'' = Inr [replicate 128 0]"
    by (rule process_reference_gallery)
  have m: "filter (matches_reference (native gallery) (face_distance gallery) (replicate 128 0) (3 / 5))
             gallery_rows
           = [face_of ''/p/b.jpg'' 0, face_of ''/p/b.jpg'' 0, face_of ''/p/a.jpg'' 0]"
    by (simp add: n d gallery_rows_def matches_reference_def)
  have s: "sort (remdups (map file_path
             (filter (matches_reference (native gallery) (face_distance gallery)
                (replicate 128 0) (3 / 5)) gallery_rows)))
           = [''/p/a.jpg'', ''/p/b.jpg'']"
    unfolding m by (simp add: sort_two_paths)
  from search_result [OF f v r, of "3 / 5"]
  obtain ps ev where run: "run_search gallery ''/ref.jpg'' (Faces gallery_rows) (3 / 5) = (Some ps, ev)"
    and ps: "ps = sort (remdups (map file_path
             (filter (matches_reference (native gallery) (face_distance gallery)
                (replicate 128 0) (3 / 5)) gallery_rows)))"
    and evs: "filter (\<lambda>e. is_result e \<or> is_terminal e) ev = map RESULT ps @ [DONE]"
    by blast
  have ps': "ps = [''/p/a.jpg'', ''/p/b.jpg'']"
    using ps s by (rule trans)
  have a: "fst (run_search gallery ''/ref.jpg'' (Faces gallery_rows) (3 / 5))
       = Some [''/p/a.jpg'', ''/p/b.jpg'']"
    by (simp only: run ps' fst_conv)
  have b: "filter (\<lambda>e. is_result e \<or> is_terminal e)
         (snd (run_search gallery ''/ref.jpg'' (Faces gallery_rows) (3 / 5)))
       = [RESULT ''/p/a.jpg'', RESULT ''/p/b.jpg'', DONE]"
    using evs by (simp only: run ps' snd_conv list.map append.simps)
  show ?thesis
    by (intro conjI f v r a b)
qed

text \<open>
  C3 as stated fails for a store whose rows all have blobs that do not decode to 128
  floats: with the reference image found and encoded, no stored encoding is within
  the tolerance, so the sorted sequence of the claim is empty, but the search
  returns no list and ends with \<open>ABORTED\<close>.
\<close>

theorem search_invalid_store_counterexample:
  "is_file gallery ''/ref.jpg''
   \<and> process_reference gallery ''/ref.jpg'' = Inr [replicate 128 0]
   \<and> sort (remdups (map file_path
        (filter (matches_reference (native gallery) (face_distance gallery)
                   (replicate 128 0) (3 / 5)) [short_row]))) = []
   \<and> fst (run_search gallery ''/ref.jpg'' (Faces [short_row]) (3 / 5)) = None
   \<and> fst (run_search gallery ''/ref.jpg'' (Faces [short_row]) (3 / 5)) \<noteq> Some []
   \<and> last (snd (run_search gallery ''/ref.jpg'' (Faces [short_row]) (3 / 5))) = ABORTED"
proof -
  have n: "native gallery = Little" and f: "is_file gallery ''/ref.jpg''"
    by (simp_all add: gallery_def)
  have r: "process_reference gallery ''/ref.jpg'' = Inr [replicate 128 0]"
    by (rule process_reference_gallery)
  have m: "sort (remdups (map file_path
        (filter (matches_reference (native gallery) (face_distance gallery)
                   (replicate 128 0) (3 / 5)) [short_row]))) = []"
    by (simp add: n matches_reference_def)
  have a: "fst (run_search gallery ''/ref.jpg'' (Faces [short_row]) (3 / 5)) = None"
    by (simp add: run_search_def load_all_encodings n f)
  have b: "last (snd (run_search gallery ''/ref.jpg'' (Faces [short_row]) (3 / 5))) = ABORTED"
    by (simp add: run_search_def load_all_encodings n f)
  from a have c: "fst (run_search gallery ''/ref.jpg'' (Faces [short_row]) (3 / 5)) \<noteq> Some []"
    by simp
  show ?thesis
    by (intro conjI f r m a c b)
qed

section \<open>Terminal messages\<close>

lemma preamble_no_terminal: "filter is_terminal (preamble dirs force m nw) = []"
  by (simp add: preamble_def)

lemma summary_no_terminal: "filter is_terminal (summary a b n c d) = []"
  by (simp add: summary_def)

lemma select_files_no_terminal:
  "select_files st idx all_paths force = (ftp, sk, ce, ev) \<Longrightarrow> filter is_terminal ev = []"
  by (auto simp add: select_files_def check_files_acc filter_empty_conv
        split: if_splits sum.splits)

lemma apply_result_no_terminal:
  "apply_result fails r c n = (c', n', ev) \<Longrightarrow> filter is_terminal ev = []"
  by (auto simp add: apply_result_def db_error_handler_def Let_def
        split: prod.splits if_splits option.splits sum.splits)

lemma consume_results_no_terminal:
  "consume_results faults tot i rs (c, n, ev) = (c', n', ev')
     \<Longrightarrow> filter is_terminal ev' = filter is_terminal ev"
proof (induction rs arbitrary: c n ev i)
  case Nil
  then show ?case by simp
next
  case (Cons r rs)
  obtain c1 n1 ev1 where a: "apply_result (faults i) r c n = (c1, n1, ev1)"
    by (cases "apply_result (faults i) r c n")
  with Cons.prems have
    "consume_results faults tot (Suc i) rs
       (c1, n1, ev @ [PROGRESS (real (Suc i) / real tot * 100) (path_name (fst r))] @ ev1)
     = (c', n', ev')"
    by simp
  from Cons.IH [OF this] apply_result_no_terminal [OF a] show ?case
    by simp
qed

lemma parallel_processing_no_terminal:
  "parallel_processing E m nw ftp rows = (rows', n, ev, pe) \<Longrightarrow> filter is_terminal ev = []"
proof -
  assume h: "parallel_processing E m nw ftp rows = (rows', n, ev, pe)"
  let ?order = "completion_order E ftp"
  let ?arrived = "case pool_breaks_at E of None \<Rightarrow> ?order | Some k \<Rightarrow> take k ?order"
  let ?C = "consume_results (db_fault E) (length ftp) 0 (map (process_image E m) ?arrived)
              (connect rows, no_counts, [])"
  obtain c' n' ev' where c: "?C = (c', n', ev')"
    by (cases ?C)
  from consume_results_no_terminal [OF c] have "filter is_terminal ev' = []"
    by simp
  with h c show ?thesis
    by (auto simp add: parallel_processing_def Let_def split: if_splits option.splits)
qed

text \<open>
  Once \<open>setup_database\<close> has returned, every path through \<open>run_indexing\<close> puts exactly
  one terminal message on the queue, as its last message.
\<close>

lemma run_indexing_one_terminal:
  assumes "setup_database db \<noteq> None"
  shows "\<exists>evs t. fst (snd (run_indexing E dirs db force m nw)) = evs @ [t]
           \<and> is_terminal t \<and> filter is_terminal evs = []
           \<and> snd (snd (run_indexing E dirs db force m nw)) = Returned"
proof -
  from assms obtain rows where s: "setup_database db = Some rows"
    by auto
  let ?idx = "get_indexed_files (Faces rows)"
  let ?all = "find_image_files E dirs"
  obtain ftp sk ce ev_sel where sel: "select_files (stat_mtime E) ?idx ?all force = (ftp, sk, ce, ev_sel)"
    by (cases "select_files (stat_mtime E) ?idx ?all force")
  obtain rows' n ev_par pe where par: "parallel_processing E m nw ftp rows = (rows', n, ev_par, pe)"
    by (cases "parallel_processing E m nw ftp rows")
  note nt = preamble_no_terminal [of dirs force m nw] select_files_no_terminal [OF sel]
    parallel_processing_no_terminal [OF par] summary_no_terminal
  let ?ev1 = "preamble dirs force m nw
              @ [INFO (''Found '' @ show_nat (length ?idx) @ '' files previously indexed.'')]
              @ ev_sel"
  consider (none) "ftp = []" | (conn) "ftp \<noteq> []" "connect_fails E"
    | (pool) "ftp \<noteq> []" "\<not> connect_fails E" "pe = PoolNotStarted"
    | (finished) "ftp \<noteq> []" "\<not> connect_fails E" "pe \<noteq> PoolNotStarted"
    by blast
  then show ?thesis
  proof cases
    case none
    with s sel nt show ?thesis
      by (intro exI [of _ "?ev1 @ [INFO ''No new or modified files to process.'', INFO ''Total time'']"]
            exI [of _ DONE])
         (simp add: run_indexing_def Let_def)
  next
    case conn
    with s sel nt show ?thesis
      by (intro exI [of _ "?ev1 @ [ERROR ''Failed to connect to database'']"] exI [of _ ABORTED])
         (simp add: run_indexing_def Let_def)
  next
    case pool
    with s sel par nt show ?thesis
      by (intro exI [of _ "?ev1 @ ev_par @ [RAW ''FATAL ERROR during indexing'']"]
            exI [of _ ABORTED])
         (simp add: run_indexing_def Let_def)
  next
    case finished
    with s sel par nt show ?thesis
      by (intro exI [of _ "?ev1 @ ev_par @ summary (length ?all) (length ftp) n sk ce"]
            exI [of _ DONE])
         (simp add: run_indexing_def Let_def)
  qed
qed

lemma drop_warning_not_terminal [simp]: "\<not> is_terminal (drop_warning bo row)"
  by (simp add: drop_warning_def split: sum.splits)

lemma load_no_terminal:
  "filter is_terminal (snd (load_all_encodings_from_db bo db)) = []"
proof (cases db)
  case (Faces rows)
  then show ?thesis
    by (simp add: load_all_encodings filter_empty_conv)
qed (simp_all add: load_all_encodings_from_db_def)

lemma results_not_terminal: "filter is_terminal (map RESULT ps) = []"
  by (induction ps) auto

text \<open>
  Every path through \<open>run_search\<close> puts exactly one terminal message on the queue, as
  its last message.
\<close>

lemma run_search_one_terminal:
  "snd (run_search E ref db tol) \<noteq> []
   \<and> is_terminal (last (snd (run_search E ref db tol)))
   \<and> filter is_terminal (butlast (snd (run_search E ref db tol))) = []"
proof (cases "is_file E ref")
  case False
  then show ?thesis by (simp add: run_search_def)
next
  case True
  obtain res ev_load where l: "load_all_encodings_from_db (native E) db = (res, ev_load)"
    by (cases "load_all_encodings_from_db (native E) db")
  have nt: "filter is_terminal ev_load = []"
    using load_no_terminal [of "native E" db] l by simp
  show ?thesis
  proof (cases res)
    case None
    with True l nt show ?thesis
      by (simp add: run_search_def butlast_append)
  next
    case (Some pe)
    obtain fps encs where pe: "pe = (fps, encs)" by (cases pe)
    show ?thesis
    proof (cases "encs = []")
      case True
      with \<open>is_file E ref\<close> l nt Some pe show ?thesis
        by (simp add: run_search_def butlast_append)
    next
      case False
      show ?thesis
      proof (cases "process_reference E ref")
        case (Inl e)
        with \<open>is_file E ref\<close> l nt Some pe False show ?thesis
          by (simp add: run_search_def butlast_append)
      next
        case (Inr refs)
        show ?thesis
        proof (cases refs)
          case Nil
          with \<open>is_file E ref\<close> l nt Some pe False Inr show ?thesis
            by (simp add: run_search_def butlast_append)
        next
          case (Cons target others)
          with \<open>is_file E ref\<close> l nt Some pe False Inr show ?thesis
            by (simp add: run_search_def butlast_append Let_def results_not_terminal)
        qed
      qed
    qed
  qed
qed

text \<open>
  C8 fails on the code.  When \<open>setup_database\<close> cannot initialise the store (the file
  is not an SQLite database), it leaves by \<open>sys.exit(1)\<close>; \<open>SystemExit\<close> is not an
  \<open>Exception\<close>, so the handler of \<open>run_indexing\<close> that would report \<open>ABORTED\<close> does not
  catch it, and the run ends after its first informational messages with no
  terminal message on the queue.
\<close>

theorem setup_failure_no_terminal_event:
  "run_indexing E dirs NotADatabase force m nw =
     (NotADatabase, preamble dirs force m nw, SystemExit)
   \<and> filter is_terminal (fst (snd (run_indexing E dirs NotADatabase force m nw))) = []"
  by (simp add: run_indexing_def setup_database_def preamble_no_terminal)

section \<open>Running the indexer twice\<close>

lemma map_of_process_image:
  "map_of (map (process_image W m) ps) q =
     (if q \<in> set ps then Some (snd (process_image W m q)) else None)"
proof (induction ps)
  case Nil
  show ?case by simp
next
  case (Cons p ps)
  have "process_image W m p = (p, snd (process_image W m p))"
    using process_image_fst [of W m p] by (simp add: prod_eq_iff)
  then have "map_of (map (process_image W m) (p # ps)) q
      = (if q = p then Some (snd (process_image W m p)) else map_of (map (process_image W m) ps) q)"
    by (metis fun_upd_apply list.simps(9) map_of.simps(2) fst_conv snd_conv)
  with Cons.IH show ?case by auto
qed

lemma result_rows_collapse:
  "result_rows (q, snd (process_image W m q)) = result_rows (process_image W m q)"
proof -
  have "process_image W m q = (q, snd (process_image W m q))"
    using process_image_fst [of W m q] by (simp add: prod_eq_iff)
  then show ?thesis by simp
qed

lemma consume_process_image_rows:
  assumes "\<And>i k. \<not> faults i k"
    and "working c = committed c"
    and "consume_results faults tot i (map (process_image W m) ps) (c, n, ev) = (c', n', ev')"
  shows "working c' = committed c'
         \<and> rows_of_path q (committed c') =
             (if q \<in> set ps then result_rows (process_image W m q)
              else rows_of_path q (committed c))"
proof -
  have ne: "\<forall>r\<in>set (map (process_image W m) ps). snd r \<noteq> Some []"
    by (simp add: process_image_not_empty)
  have f: "\<forall>r\<in>set (map (process_image W m) ps). \<forall>r'\<in>set (map (process_image W m) ps).
             fst r = fst r' \<longrightarrow> snd r = snd r'"
    by (auto simp add: process_image_fst)
  from consume_results_rows [OF assms(1,2) ne f assms(3), of q]
  show ?thesis
    by (simp add: map_of_process_image result_rows_collapse)
qed

lemma parallel_processing_rows:
  assumes "1 \<le> nw" and "\<not> pool_start_fails E" and "pool_breaks_at E = None"
    and "\<And>i k. \<not> db_fault E i k"
    and "set (completion_order E ftp) = set ftp"
  shows "snd (snd (snd (parallel_processing E m nw ftp rows))) = PoolDone
         \<and> rows_of_path q (fst (parallel_processing E m nw ftp rows)) =
             (if q \<in> set ftp then result_rows (process_image E m q) else rows_of_path q rows)"
proof -
  let ?C = "consume_results (db_fault E) (length ftp) 0
              (map (process_image E m) (completion_order E ftp)) (connect rows, no_counts, [])"
  obtain c' n' ev' where c: "?C = (c', n', ev')"
    by (cases ?C)
  have inv: "working (connect rows) = committed (connect rows)"
    by (simp add: connect_def)
  from consume_process_image_rows [OF assms(4) inv c, of q] assms(5)
  have r: "rows_of_path q (committed c') =
             (if q \<in> set ftp then result_rows (process_image E m q) else rows_of_path q rows)"
    by (simp add: connect_def)
  have "parallel_processing E m nw ftp rows =
          (committed c', n',
           [INFO (''Starting face detection and encoding with '' @ show_int nw @ '' workers...'')]
           @ ev' @ [RAW (CHR 0x0A # ''INFO: Processing complete.'')], PoolDone)"
    using assms(1-3) c by (simp add: parallel_processing_def Let_def close_conn_def)
  with r show ?thesis by simp
qed

lemma map_of_keyed: "map_of (map (\<lambda>k. (k, f k)) ks) p = (if p \<in> set ks then Some (f p) else None)"
  by (induction ks) auto

lemma rows_of_path_Nil_iff: "rows_of_path p rows = [] \<longleftrightarrow> p \<notin> file_path ` set rows"
  by (auto simp add: rows_of_path_def filter_empty_conv)

lemma map_of_group_max:
  "map_of (group_max rows) p =
     (if rows_of_path p rows = [] then None
      else Some (Max (set (map last_modified (rows_of_path p rows)))))"
  by (simp add: group_max_def map_of_keyed rows_of_path_Nil_iff) (simp add: rows_of_path_def)

lemma needs_processing_group_max:
  "needs_processing (group_max rows) p t \<longleftrightarrow>
     rows_of_path p rows = [] \<or> Max (set (map last_modified (rows_of_path p rows))) < t"
  by (simp add: needs_processing_def map_of_group_max)

lemma apply_None_noop:
  assumes "\<not> fails 0" "\<not> fails 1" "working c = committed c" "rows_of_path p (committed c) = []"
  shows "fst (apply_result fails (p, None) c n) = c"
proof -
  have "filter (\<lambda>r. file_path r \<noteq> p) (committed c) = committed c"
    using assms(4) by (auto simp add: rows_of_path_def filter_empty_conv filter_id_conv)
  with assms(1-3) show ?thesis
    by (cases c) (simp add: apply_result_def execute_delete_def commit_def Let_def)
qed

lemma consume_noop:
  assumes "\<And>i k. \<not> faults i k"
    and "working c = committed c"
    and "\<forall>p\<in>set ps. snd (process_image W m p) = None \<and> rows_of_path p (committed c) = []"
  shows "fst (consume_results faults tot i (map (process_image W m) ps) (c, n, ev)) = c"
  using assms(3)
proof (induction ps arbitrary: n ev i)
  case Nil
  show ?case by simp
next
  case (Cons p ps)
  have pi: "process_image W m p = (p, None)"
    using process_image_fst [of W m p] Cons.prems by (simp add: prod_eq_iff)
  have r: "rows_of_path p (committed c) = []"
    using Cons.prems by simp
  obtain c1 n1 ev1 where a: "apply_result (faults i) (p, None) c n = (c1, n1, ev1)"
    by (cases "apply_result (faults i) (p, None) c n")
  have "c1 = c"
    using apply_None_noop [where fails = "faults i" and c = c and p = p and n = n]
      assms(1) assms(2) r a by simp
  moreover have "\<forall>p\<in>set ps. snd (process_image W m p) = None \<and> rows_of_path p (committed c) = []"
    using Cons.prems by simp
  ultimately show ?case
    using Cons.IH a pi by simp
qed

lemma run_indexing_store:
  assumes "setup_database db = Some rows0"
    and "select_files (stat_mtime E) (get_indexed_files (Faces rows0)) (find_image_files E dirs) force
           = (ftp, sk, ce, ev)"
    and "\<not> connect_fails E"
  shows "fst (run_indexing E dirs db force m nw) =
           Faces (if ftp = [] then rows0 else fst (parallel_processing E m nw ftp rows0))"
  using assms
  by (cases "parallel_processing E m nw ftp rows0")
     (simp add: run_indexing_def Let_def)

lemma process_image_Some:
  assumes "snd (process_image W m p) = Some fs"
  shows "\<exists>t encs locs. stat_mtime W p = Inr t \<and> fs = face_results (native W) t encs locs
           \<and> fs \<noteq> []"
  using assms
  by (auto simp add: process_image_def face_results_Nil split: sum.splits if_splits)

lemma last_modified_face_results:
  "map last_modified (map (new_row p) (face_results bo t encs locs))
     = replicate (length (face_results bo t encs locs)) t"
  by (simp add: face_results_def new_row_def split_def comp_def map_replicate_const)

lemma select_files_fst:
  "fst (select_files st idx all_paths False) =
     filter (\<lambda>p. case st p of Inl e \<Rightarrow> False | Inr t \<Rightarrow> needs_processing idx p t) all_paths"
  by (simp add: select_files_def check_files_acc)

lemma select_files_skipped:
  assumes "select_files st idx all_paths force = (ftp, sk, ce, ev)"
    and "p \<in> set all_paths" and "st p = Inr t" and "p \<notin> set ftp"
  shows "\<not> needs_processing idx p t"
proof (cases force)
  case True
  with assms show ?thesis by (simp add: select_files_def)
next
  case False
  with assms(1) have "ftp = fst (select_files st idx all_paths False)" by simp
  with assms(2-4) show ?thesis by (auto simp add: select_files_fst)
qed

text \<open>
  After a run without errors, a file found by the scan whose \<open>stat\<close> succeeds needs
  processing again exactly when the store has no row for it, and then the worker
  has no face record for it.
\<close>

lemma stale_after_run:
  assumes sel: "select_files (stat_mtime E) (group_max rows0) all_paths force = (ftp, sk, ce, ev)"
    and rows1: "\<And>q. rows_of_path q rows1 =
                  (if q \<in> set ftp then result_rows (process_image E m q) else rows_of_path q rows0)"
    and p: "p \<in> set all_paths" and st: "stat_mtime E p = Inr t"
  shows "(needs_processing (group_max rows1) p t \<longleftrightarrow> rows_of_path p rows1 = [])
         \<and> (rows_of_path p rows1 = [] \<longrightarrow> snd (process_image E m p) = None)"
proof (cases "p \<in> set ftp")
  case True
  then have r: "rows_of_path p rows1 = result_rows (process_image E m p)"
    by (simp add: rows1)
  show ?thesis
  proof (cases "snd (process_image E m p)")
    case None
    with r show ?thesis
      by (simp add: needs_processing_group_max result_rows_def)
  next
    case (Some fs)
    from process_image_Some [OF Some] st obtain encs locs
      where fs: "fs = face_results (native E) t encs locs" and ne: "fs \<noteq> []"
      by auto
    have rr: "rows_of_path p rows1 = map (new_row p) fs"
      using r Some process_image_fst [of E m p] by (simp add: result_rows_def)
    have "set (map last_modified (rows_of_path p rows1)) = {t}"
      using ne unfolding rr fs last_modified_face_results by simp
    then have "Max (set (map last_modified (rows_of_path p rows1))) = t"
      by simp
    with rr ne Some show ?thesis
      by (simp add: needs_processing_group_max)
  qed
next
  case False
  then have r: "rows_of_path p rows1 = rows_of_path p rows0"
    by (simp add: rows1)
  from select_files_skipped [OF sel p st False]
  have "\<not> needs_processing (group_max rows0) p t" .
  then have "rows_of_path p rows0 \<noteq> []"
    and "\<not> Max (set (map last_modified (rows_of_path p rows0))) < t"
    by (simp_all add: needs_processing_group_max)
  with r show ?thesis
    by (simp add: needs_processing_group_max)
qed

lemma parallel_processing_noop:
  assumes "1 \<le> nw" and "\<not> pool_start_fails E" and "pool_breaks_at E = None"
    and "\<And>i k. \<not> db_fault E i k"
    and "set (completion_order E ftp) = set ftp"
    and "\<forall>p\<in>set ftp. snd (process_image E m p) = None \<and> rows_of_path p rows = []"
  shows "fst (parallel_processing E m nw ftp rows) = rows"
proof -
  let ?C = "consume_results (db_fault E) (length ftp) 0
              (map (process_image E m) (completion_order E ftp)) (connect rows, no_counts, [])"
  have inv: "working (connect rows) = committed (connect rows)"
    by (simp add: connect_def)
  have "\<forall>p\<in>set (completion_order E ftp).
          snd (process_image E m p) = None \<and> rows_of_path p (committed (connect rows)) = []"
    using assms(5,6) by (simp add: connect_def)
  from consume_noop [OF assms(4) inv this]
  have "fst ?C = connect rows" .
  then show ?thesis
    using assms(1-3)
    by (cases ?C) (simp add: parallel_processing_def Let_def close_conn_def connect_def)
qed

text \<open>
  C5, as the code has it.  A first run without any database or pool error, then a
  second run over the same directories, with nothing changed in between and without
  \<open>force_rescan\<close>.  The processing set of the second run is the list of the files
  found whose \<open>stat\<close> succeeds and for which the store holds no row after the first
  run; for each of them the worker again has no face record (no face was found or
  the processing failed); and the second run leaves the store as the first run left
  it.  So the second run processes no file exactly when every such file has a row
  in the store, and it processes again every file without a face.
\<close>

theorem second_run:
  assumes "\<not> connect_fails E" and "\<not> pool_start_fails E" and "1 \<le> nw"
    and "pool_breaks_at E = None" and "\<And>i k. \<not> db_fault E i k"
    and "\<And>ps. mset (completion_order E ps) = mset ps"
    and "db0 \<noteq> NotADatabase"
    and "run_indexing E dirs db0 force m nw = (db1, ev1, out1)"
  shows "\<exists>rows1. db1 = Faces rows1
           \<and> fst (select_files (stat_mtime E) (get_indexed_files db1) (find_image_files E dirs) False)
               = filter (\<lambda>p. \<not> isl (stat_mtime E p) \<and> rows_of_path p rows1 = [])
                   (find_image_files E dirs)
           \<and> (\<forall>p\<in>set (fst (select_files (stat_mtime E) (get_indexed_files db1)
                              (find_image_files E dirs) False)).
                 snd (process_image E m p) = None)
           \<and> fst (run_indexing E dirs db1 False m nw) = db1"
proof -
  let ?all = "find_image_files E dirs"
  let ?st = "stat_mtime E"
  have perm: "set (completion_order E ps) = set ps" for ps
    using assms(6) [of ps] by (rule mset_eq_setD)
  from assms(7) obtain rows0 where s0: "setup_database db0 = Some rows0"
    by (cases db0) (simp_all add: setup_database_def)
  obtain ftp1 sk1 ce1 evs1
    where sel1: "select_files ?st (get_indexed_files (Faces rows0)) ?all force = (ftp1, sk1, ce1, evs1)"
    by (cases "select_files ?st (get_indexed_files (Faces rows0)) ?all force")
  define rows1 where "rows1 = (if ftp1 = [] then rows0 else fst (parallel_processing E m nw ftp1 rows0))"
  have db1: "db1 = Faces rows1"
    using run_indexing_store [OF s0 sel1 assms(1), of m nw] assms(8) by (simp add: rows1_def)
  have per_path: "rows_of_path q rows1 =
      (if q \<in> set ftp1 then result_rows (process_image E m q) else rows_of_path q rows0)" for q
    using parallel_processing_rows [OF assms(3,2,4,5) perm, where ftp = ftp1 and q = q
        and m = m and rows = rows0]
    by (simp add: rows1_def)
  have sel1': "select_files ?st (group_max rows0) ?all force = (ftp1, sk1, ce1, evs1)"
    using sel1 by (simp add: get_indexed_files_def)
  note key = stale_after_run [OF sel1' per_path]
  let ?ftp2 = "fst (select_files ?st (get_indexed_files db1) ?all False)"
  have ftp2: "?ftp2 = filter (\<lambda>p. \<not> isl (?st p) \<and> rows_of_path p rows1 = []) ?all"
    unfolding db1 select_files_fst
  proof (rule filter_cong [OF refl])
    fix p assume p: "p \<in> set ?all"
    show "(case ?st p of Inl e \<Rightarrow> False
           | Inr t \<Rightarrow> needs_processing (get_indexed_files (Faces rows1)) p t)
          = (\<not> isl (?st p) \<and> rows_of_path p rows1 = [])"
    proof (cases "?st p")
      case (Inl e)
      then show ?thesis by simp
    next
      case (Inr t)
      with key [OF p Inr] show ?thesis by (simp add: get_indexed_files_def)
    qed
  qed
  have none: "snd (process_image E m p) = None \<and> rows_of_path p rows1 = []" if "p \<in> set ?ftp2" for p
  proof -
    from that have p: "p \<in> set ?all" and ok: "\<not> isl (?st p)" and e: "rows_of_path p rows1 = []"
      unfolding ftp2 by simp_all
    from ok obtain t where "?st p = Inr t" by (cases "?st p") simp_all
    from key [OF p this] e show ?thesis by simp
  qed
  obtain sk2 ce2 evs2
    where sel2: "select_files ?st (get_indexed_files (Faces rows1)) ?all False = (?ftp2, sk2, ce2, evs2)"
    unfolding db1 by (cases "select_files ?st (get_indexed_files (Faces rows1)) ?all False") simp
  have s1: "setup_database db1 = Some rows1"
    by (simp add: db1 setup_database_def)
  have "fst (parallel_processing E m nw ?ftp2 rows1) = rows1"
    using none by (intro parallel_processing_noop [OF assms(3,2,4,5) perm]) blast
  with run_indexing_store [OF s1 sel2 assms(1), of m nw]
  have run2: "fst (run_indexing E dirs db1 False m nw) = db1"
    by (simp add: db1)
  from db1 ftp2 none run2 show ?thesis
    by blast
qed

lemma mixed_album_a:
  "process_image mixed_album ''hog'' ''/photos/a.jpg'' =
     (''/photos/a.jpg'', Some [(100, np_array_to_blob Little (replicate 128 0), ''10,60,50,20'')])"
  by (simp add: process_image_def mixed_album_def face_results_def location_str_def
        show_int_def show_nat.simps ENCODING_MODEL_def)

lemma mixed_album_b:
  "process_image mixed_album ''hog'' ''/photos/b.jpg'' = (''/photos/b.jpg'', None)"
  by (simp add: process_image_def mixed_album_def)

lemma mixed_album_first_run:
  "fst (run_indexing mixed_album [''/photos''] Missing False ''hog'' 4)
     = Faces [face_of ''/photos/a.jpg'' 0]"
proof -
  have fields: "find_image_files mixed_album [''/photos''] = [''/photos/a.jpg'', ''/photos/b.jpg'']"
    "stat_mtime mixed_album = (\<lambda>p. Inr 100)" "\<not> connect_fails mixed_album"
    "\<not> pool_start_fails mixed_album" "pool_breaks_at mixed_album = None"
    "completion_order mixed_album = (\<lambda>ps. ps)" "db_fault mixed_album = (\<lambda>i k. False)"
    by (simp_all add: mixed_album_def)
  show ?thesis
    by (simp add: run_indexing_def setup_database_def get_indexed_files_def group_max_def
        select_files_def needs_processing_def parallel_processing_def fields
        mixed_album_a mixed_album_b apply_result_def execute_delete_def execute_insert_def
        commit_def connect_def close_conn_def new_row_def face_of_def Let_def)
qed

theorem second_run_witness:
  "\<not> connect_fails mixed_album \<and> \<not> pool_start_fails mixed_album \<and> (1 :: int) \<le> 4
   \<and> pool_breaks_at mixed_album = None \<and> (\<forall>i k. \<not> db_fault mixed_album i k)
   \<and> (\<forall>ps. mset (completion_order mixed_album ps) = mset ps)
   \<and> Missing \<noteq> NotADatabase
   \<and> fst (run_indexing mixed_album [''/photos'']
           (fst (run_indexing mixed_album [''/photos''] Missing False ''hog'' 4)) False ''hog'' 4)
       = Faces [face_of ''/photos/a.jpg'' 0]"
proof -
  let ?R = "run_indexing mixed_album [''/photos''] Missing False ''hog'' 4"
  have h1: "\<not> connect_fails mixed_album" and h2: "\<not> pool_start_fails mixed_album"
    and h3: "(1 :: int) \<le> 4" and h4: "pool_breaks_at mixed_album = None"
    and h5: "\<And>i k. \<not> db_fault mixed_album i k"
    and h6: "\<And>ps. mset (completion_order mixed_album ps) = mset ps"
    and h7: "Missing \<noteq> NotADatabase"
    by (simp_all add: mixed_album_def)
  have h8: "?R = (fst ?R, fst (snd ?R), snd (snd ?R))"
    by simp
  from second_run [OF h1 h2 h3 h4 h5 h6 h7 h8]
  have "fst (run_indexing mixed_album [''/photos''] (fst ?R) False ''hog'' 4) = fst ?R"
    by blast
  then have "fst (run_indexing mixed_album [''/photos''] (fst ?R) False ''hog'' 4)
       = Faces [face_of ''/photos/a.jpg'' 0]"
    by (simp only: mixed_album_first_run)
  with h1 h2 h3 h4 h5 h6 h7 show ?thesis
    by blast
qed

text \<open>
  C5 as stated fails: after indexing \<open>a.jpg\<close> (one face) and \<open>b.jpg\<close> (no face) the
  store holds one row, for \<open>a.jpg\<close>; the second run, with nothing changed, has
  \<open>b.jpg\<close> in its processing set and reports progress on it.
\<close>

theorem second_run_counterexample:
  "fst (run_indexing mixed_album [''/photos''] Missing False ''hog'' 4)
     = Faces [face_of ''/photos/a.jpg'' 0]
   \<and> fst (select_files (stat_mtime mixed_album)
           (get_indexed_files (Faces [face_of ''/photos/a.jpg'' 0]))
           (find_image_files mixed_album [''/photos'']) False)
     = [''/photos/b.jpg'']
   \<and> PROGRESS 100 ''b.jpg''
       \<in> set (fst (snd (run_indexing mixed_album [''/photos'']
                          (Faces [face_of ''/photos/a.jpg'' 0]) False ''hog'' 4)))"
proof -
  have fields: "find_image_files mixed_album [''/photos''] = [''/photos/a.jpg'', ''/photos/b.jpg'']"
    "stat_mtime mixed_album = (\<lambda>p. Inr 100)" "\<not> connect_fails mixed_album"
    "\<not> pool_start_fails mixed_album" "pool_breaks_at mixed_album = None"
    "completion_order mixed_album = (\<lambda>ps. ps)" "db_fault mixed_album = (\<lambda>i k. False)"
    by (simp_all add: mixed_album_def)
  have sel: "select_files (\<lambda>p. Inr 100) (get_indexed_files (Faces [face_of ''/photos/a.jpg'' 0]))
               [''/photos/a.jpg'', ''/photos/b.jpg''] False
             = ([''/photos/b.jpg''], 1, 0,
                [INFO ''Checking which files are new or modified...'',
                 INFO ''Estimated 1 files need processing.'',
                 INFO ''Identified 1 new or modified files to process.'',
                 INFO ''Skipped 1 already indexed and unchanged files.''])"
    by (simp add: select_files_def get_indexed_files_def group_max_def needs_processing_def
        approx_new_modified_def face_of_def show_nat.simps)
  have name: "path_name ''/photos/b.jpg'' = ''b.jpg''"
    by (simp add: path_name_def)
  have "PROGRESS 100 ''b.jpg''
       \<in> set (fst (snd (run_indexing mixed_album [''/photos'']
                          (Faces [face_of ''/photos/a.jpg'' 0]) False ''hog'' 4)))"
    by (simp add: run_indexing_def setup_database_def fields sel parallel_processing_def
        mixed_album_b apply_result_def Let_def name)
  with mixed_album_first_run sel show ?thesis
    by (simp add: fields)
qed

end
